theory Spec2Isabelle
  imports Main "HOL-Library.Multiset"
begin

section \<open>Strings as the JavaScript code uses them\<close>

text \<open>
  Strings are character lists. Only the ASCII letters change case; none of the patterns
  the code searches for can be produced by case-folding a non-ASCII character.
\<close>

definition toLowerCase :: "string \<Rightarrow> string" where
  "toLowerCase s =
     map (\<lambda>c. case map_of (zip ''ABCDEFGHIJKLMNOPQRSTUVWXYZ'' ''abcdefghijklmnopqrstuvwxyz'') c of
                None \<Rightarrow> c | Some d \<Rightarrow> d) s"

definition toUpperCase :: "string \<Rightarrow> string" where
  "toUpperCase s =
     map (\<lambda>c. case map_of (zip ''abcdefghijklmnopqrstuvwxyz'' ''ABCDEFGHIJKLMNOPQRSTUVWXYZ'') c of
                None \<Rightarrow> c | Some d \<Rightarrow> d) s"

text \<open>\<open>s.substr(start, len)\<close> for non-negative arguments.\<close>

definition substr :: "nat \<Rightarrow> nat \<Rightarrow> string \<Rightarrow> string" where
  "substr start len s = take len (drop start s)"

text \<open>\<open>starts_with pat s\<close>: the pattern \<open>pat\<close> occurs at the very beginning of \<open>s\<close>.\<close>

fun starts_with :: "string \<Rightarrow> string \<Rightarrow> bool" where
  "starts_with [] s = True"
| "starts_with (p # ps) [] = False"
| "starts_with (p # ps) (c # cs) = (p = c \<and> starts_with ps cs)"

text \<open>
  \<open>str_includes s pat\<close>: the literal \<open>pat\<close> occurs somewhere in \<open>s\<close>. This is what an
  unanchored regular expression made of a literal does under \<open>RegExp.test\<close> and
  \<open>String.match\<close>.
\<close>

fun str_includes :: "string \<Rightarrow> string \<Rightarrow> bool" where
  "str_includes [] pat = starts_with pat []"
| "str_includes (c # cs) pat = (starts_with pat (c # cs) \<or> str_includes cs pat)"

text \<open>Decimal rendering of a non-negative integer, as \<open>'' + n\<close> gives it.\<close>

fun decimal :: "nat \<Rightarrow> string" where
  "decimal n =
     (if n < 10 then [''0123456789'' ! n]
      else decimal (n div 10) @ [''0123456789'' ! (n mod 10)])"

declare decimal.simps [simp del]

text \<open>
  \<open>path.extname\<close> (POSIX): trailing slashes are skipped, the last path segment is the
  base name, and the extension runs from the last dot of the base name to its end. The
  result is empty when the base name has no dot, when its only dot is its first
  character, and when the base name is \<open>..\<close>.
\<close>

definition extname :: "string \<Rightarrow> string" where
  "extname p =
     (let stripped = rev (dropWhile (\<lambda>c. c = CHR ''/'') (rev p));
          base = rev (takeWhile (\<lambda>c. c \<noteq> CHR ''/'') (rev stripped));
          after_dot = takeWhile (\<lambda>c. c \<noteq> CHR ''.'') (rev base)
      in if length after_dot = length base then []
         else if length base - length after_dot - 1 = 0 then []
         else if base = ''..'' then []
         else drop (length base - length after_dot - 1) base)"

section \<open>Data model (the two Mongoose schemas)\<close>

datatype status = Pending | Verified | Rejected

text \<open>
  The \<open>enum\<close> validator of \<open>verificationSchema.status\<close>: the three strings it admits.
\<close>

definition status_enum :: "string \<Rightarrow> status option" where
  "status_enum s =
     (if s = ''pending'' then Some Pending
      else if s = ''verified'' then Some Verified
      else if s = ''rejected'' then Some Rejected
      else None)"

text \<open>Dates are milliseconds since the epoch; an unset field is \<open>None\<close>.\<close>

record verification =
  verificationId :: string
  userAddress :: string
  task :: string
  screenshotPath :: string
  status :: status
  reviewedBy :: "string option"
  reviewNotes :: "string option"
  submittedAt :: nat
  reviewedAt :: "nat option"

text \<open>The five paths that \<open>userSchema\<close> declares under \<open>tasksCompleted\<close>.\<close>

datatype task_name = Twitter | Facebook | Instagram | Youtube | Telegram

definition schema_path :: "string \<Rightarrow> task_name option" where
  "schema_path t =
     (if t = ''twitter'' then Some Twitter
      else if t = ''facebook'' then Some Facebook
      else if t = ''instagram'' then Some Instagram
      else if t = ''youtube'' then Some Youtube
      else if t = ''telegram'' then Some Telegram
      else None)"

text \<open>
  The field \<open>userAddress\<close> of a user is called \<open>user_address\<close> here, the name
  \<open>userAddress\<close> being taken by the verification record.

  \<open>tasksCompleted\<close> is the stored sub-document: \<open>Some b\<close> where it holds the boolean
  \<open>b\<close> under a declared path, \<open>None\<close> where it holds no boolean there (nothing, so
  that the schema's default \<open>false\<close> is read, or something a write beneath the path
  has put there). Only \<open>Some True\<close> reads as a completed task.
\<close>

record user =
  user_address :: string
  referralCode :: "string option"
  isActive :: bool
  registrationDate :: nat
  tasksCompleted :: "task_name \<rightharpoonup> bool"
  dailyClaims :: "(nat \<times> int) list"

text \<open>
  The record store: both collections in insertion order. Documents are never deleted.
\<close>

record store =
  verifications :: "verification list"
  users :: "user list"

definition empty_store :: store where
  "empty_store = \<lparr>verifications = [], users = []\<rparr>"

text \<open>
  What a request reads from its environment: the clock (\<open>Date.now()\<close>,
  \<open>new Date()\<close>), and the two draws of \<open>Math.random()\<close>, one already rounded
  (\<open>Math.round(Math.random() * 1E9)\<close>) and one already rendered
  (\<open>Math.random().toString(36)\<close>).

  Two answers of the libraries are not fixed by the source and are taken from the
  environment as well, so that every result below holds whichever way they fall:
  \<^item> \<open>refusesAtLimit\<close>: whether the upload middleware refuses a file of exactly the
    size limit (releases of the library differ; beyond the limit all refuse);
  \<^item> \<open>acceptsBeneath\<close>: whether the database accepts a \<open>$set\<close> beneath a declared
    path of \<open>tasksCompleted\<close> in a document that holds no boolean at that path (it
    depends on what else the document holds there; where a boolean is held, the
    write is always refused).
\<close>

record env =
  now :: nat
  randomSuffix :: nat
  randomBase36 :: string
  refusesAtLimit :: bool
  acceptsBeneath :: bool

section \<open>HTTP responses\<close>

datatype body =
    SubmitOk string
  | Failure string
  | Error string
  | StatusMap "(string \<times> status) list"
  | VerificationList "verification list"
  | Success
  | UserInfo user
  | Unhandled string

type_synonym response = "nat \<times> body"

section \<open>The upload middleware\<close>

record upload_file =
  originalname :: string
  mimetype :: string
  size_bytes :: nat

text \<open>\<open>/jpeg|jpg|png|gif/.test(s)\<close>\<close>

definition filetypes_test :: "string \<Rightarrow> bool" where
  "filetypes_test s =
     (str_includes s ''jpeg'' \<or> str_includes s ''jpg'' \<or> str_includes s ''png'' \<or> str_includes s ''gif'')"

definition fileFilter :: "upload_file \<Rightarrow> bool" where
  "fileFilter file =
     (let mimetype_ok = filetypes_test (mimetype file);
          extname_ok = filetypes_test (toLowerCase (extname (originalname file)))
      in mimetype_ok \<and> extname_ok)"

definition fileSize_limit :: nat where
  "fileSize_limit = 5 * 1024 * 1024"

text \<open>The name \<open>diskStorage\<close> gives the stored file, under the destination directory.\<close>

definition filename :: "env \<Rightarrow> upload_file \<Rightarrow> string" where
  "filename e file =
     (let uniqueSuffix = decimal (now e) @ ''-'' @ decimal (randomSuffix e)
      in uniqueSuffix @ extname (originalname file))"

text \<open>
  \<open>upload.single('screenshot')\<close>: with no file part the request goes on with
  \<open>req.file\<close> undefined; a file is first put to the filter and then measured against
  the size limit while it is stored (a file larger than the limit is refused; one of
  exactly the limit is refused by some releases of the library). A failure is an error
  value (\<open>Inl\<close>) handed to the framework instead of the route handler; success is the
  path of the stored file.
\<close>

definition upload_single :: "env \<Rightarrow> upload_file option \<Rightarrow> string + string option" where
  "upload_single e req_file =
     (case req_file of
        None \<Rightarrow> Inr None
      | Some file \<Rightarrow>
          if \<not> fileFilter file then Inl ''Only image files are allowed''
          else if size_bytes file > fileSize_limit \<or>
                  (size_bytes file = fileSize_limit \<and> refusesAtLimit e)
          then Inl ''File too large''
          else Inr (Some (''uploads/'' @ filename e file)))"

section \<open>Queries and updates on the collections\<close>

fun update_first :: "('a \<Rightarrow> bool) \<Rightarrow> ('a \<Rightarrow> 'a) \<Rightarrow> 'a list \<Rightarrow> 'a list" where
  "update_first P f [] = []"
| "update_first P f (x # xs) = (if P x then f x # xs else x # update_first P f xs)"

definition findVerification :: "string \<Rightarrow> store \<Rightarrow> verification option" where
  "findVerification vid s = find (\<lambda>v. verificationId v = vid) (verifications s)"

definition findUser :: "string \<Rightarrow> store \<Rightarrow> user option" where
  "findUser addr s = find (\<lambda>u. user_address u = addr) (users s)"

text \<open>
  Where the path \<open>tasksCompleted.${task}\<close> of an update falls in the schema: on one
  of the five declared paths; beneath one of them (the task is a declared name
  followed by a dot and more: the schema layer lets such a path through to the
  database); or outside the schema, where the strict schema drops it from the update.
\<close>

datatype update_path = Declared task_name | Beneath task_name | Undeclared

definition tasksCompleted_path :: "string \<Rightarrow> update_path" where
  "tasksCompleted_path t =
     (case schema_path t of
        Some k \<Rightarrow> Declared k
      | None \<Rightarrow>
          (case schema_path (takeWhile (\<lambda>c. c \<noteq> CHR ''.'') t) of
             Some k \<Rightarrow> Beneath k
           | None \<Rightarrow> Undeclared))"

text \<open>
  \<open>$set: { [`tasksCompleted.${task}`]: b }\<close> on a user document; \<open>None\<close> when the
  database refuses the update, which makes the call throw. A write beneath a path
  that holds a boolean is refused (no field can be created in a boolean); beneath a
  path that holds none the environment has the answer, and the path goes on holding
  no boolean.
\<close>

definition set_task_completed :: "env \<Rightarrow> string \<Rightarrow> bool \<Rightarrow> user \<Rightarrow> user option" where
  "set_task_completed e t b u =
     (case tasksCompleted_path t of
        Declared k \<Rightarrow> Some (u\<lparr>tasksCompleted := (tasksCompleted u)(k \<mapsto> b)\<rparr>)
      | Undeclared \<Rightarrow> Some u
      | Beneath k \<Rightarrow>
          (case tasksCompleted u k of
             Some held \<Rightarrow> None
           | None \<Rightarrow> if acceptsBeneath e then Some u else None))"

text \<open>A user document as \<open>new User\<close> makes it: every default is set and stored.\<close>

definition default_user :: "env \<Rightarrow> string \<Rightarrow> user" where
  "default_user e addr =
     \<lparr>user_address = addr, referralCode = None, isActive = False,
      registrationDate = now e, tasksCompleted = (\<lambda>k. Some False), dailyClaims = []\<rparr>"

text \<open>
  The document an upsert starts from: the address of the filter. Whether the
  defaults of the other fields are stored with it is left to the library; they are
  read as the defaults in either case, and \<open>tasksCompleted\<close> holds only what the
  update writes.
\<close>

definition upserted_user :: "env \<Rightarrow> string \<Rightarrow> user" where
  "upserted_user e addr =
     \<lparr>user_address = addr, referralCode = None, isActive = False,
      registrationDate = now e, tasksCompleted = Map.empty, dailyClaims = []\<rparr>"

text \<open>Putting back the changed document of a user that is in the collection.\<close>

definition store_user :: "user \<Rightarrow> user list \<Rightarrow> user list" where
  "store_user u' us = update_first (\<lambda>u. user_address u = user_address u') (\<lambda>u. u') us"

text \<open>
  \<open>User.findOneAndUpdate({ userAddress }, { $set: { [`tasksCompleted.${task}`]: b } },
  options)\<close>, with or without \<open>upsert\<close>: the collection afterwards, \<open>None\<close> when the
  update is refused and the call throws. Without a matching document and without
  \<open>upsert\<close> nothing is written, but the update itself still has to be accepted.
\<close>

definition findOneAndUpdate ::
  "env \<Rightarrow> string \<Rightarrow> string \<Rightarrow> bool \<Rightarrow> bool \<Rightarrow> user list \<Rightarrow> user list option" where
  "findOneAndUpdate e addr t b upsert us =
     (case find (\<lambda>u. user_address u = addr) us of
        Some u \<Rightarrow>
          (case set_task_completed e t b u of
             None \<Rightarrow> None
           | Some u' \<Rightarrow> Some (store_user u' us))
      | None \<Rightarrow>
          (case set_task_completed e t b (upserted_user e addr) of
             None \<Rightarrow> None
           | Some u' \<Rightarrow> Some (if upsert then us @ [u'] else us)))"

section \<open>The routes\<close>

text \<open>
  \<open>POST /api/submit-verification\<close>. An error of the middleware never reaches the
  handler: the application installs no error handler, so the framework's default one
  answers, with status 500. The unique index on \<open>verificationId\<close> makes \<open>save\<close>
  throw on a duplicate, which the handler's \<open>catch\<close> turns into a 500. When the
  update of the user throws, the \<open>catch\<close> answers 500 as well, after the verification
  has been saved and without returning its id.
\<close>

definition submit_verification ::
  "env \<Rightarrow> string \<Rightarrow> string \<Rightarrow> upload_file option \<Rightarrow> store \<Rightarrow> response \<times> store" where
  "submit_verification e tsk addr req_file s =
     (case upload_single e req_file of
        Inl msg \<Rightarrow> ((500, Unhandled msg), s)
      | Inr None \<Rightarrow> ((400, Failure ''No file uploaded''), s)
      | Inr (Some path) \<Rightarrow>
          let vid = ''VER'' @ decimal (now e) @ toUpperCase (substr 2 9 (randomBase36 e))
          in if vid \<in> set (map verificationId (verifications s))
             then ((500, Failure ''E11000 duplicate key error''), s)
             else
               let v = \<lparr>verificationId = vid, userAddress = addr, task = tsk,
                        screenshotPath = path, status = Pending, reviewedBy = None,
                        reviewNotes = None, submittedAt = now e, reviewedAt = None\<rparr>;
                   s1 = s\<lparr>verifications := verifications s @ [v]\<rparr>
               in (case findOneAndUpdate e addr tsk False True (users s1) of
                     None \<Rightarrow> ((500, Failure ''Cannot create field''), s1)
                   | Some us \<Rightarrow> ((200, SubmitOk vid), s1\<lparr>users := us\<rparr>)))"

text \<open>
  \<open>GET /api/verification-status/:userAddress\<close>. The query result is sorted by
  descending \<open>submittedAt\<close> (a stable sort of the insertion order is taken for the
  database's).

  \<open>statusMap\<close> is a plain object: besides its own properties (the association list)
  a lookup finds the properties inherited from \<open>Object.prototype\<close>. Such a value is
  truthy and has no \<open>submittedAt\<close>, so the comparison with it is false and the
  verification is passed over. The answer is a JSON object: the order of its entries
  carries no meaning.
\<close>

definition object_prototype_keys :: "string list" where
  "object_prototype_keys =
     [''constructor'', ''__proto__'', ''hasOwnProperty'', ''isPrototypeOf'',
      ''propertyIsEnumerable'', ''toLocaleString'', ''toString'', ''valueOf'',
      ''__defineGetter__'', ''__defineSetter__'', ''__lookupGetter__'',
      ''__lookupSetter__'']"

text \<open>\<open>obj[k] = v\<close> on the own properties: an existing key keeps its place.\<close>

fun assign :: "string \<Rightarrow> 'v \<Rightarrow> (string \<times> 'v) list \<Rightarrow> (string \<times> 'v) list" where
  "assign k v [] = [(k, v)]"
| "assign k v ((k', v') # kvs) = (if k' = k then (k, v) # kvs else (k', v') # assign k v kvs)"

definition statusMap_step ::
  "(string \<times> verification) list \<Rightarrow> verification \<Rightarrow> (string \<times> verification) list" where
  "statusMap_step statusMap v =
     (case map_of statusMap (task v) of
        Some w \<Rightarrow> if submittedAt v > submittedAt w then assign (task v) v statusMap else statusMap
      | None \<Rightarrow>
          if task v \<in> set object_prototype_keys then statusMap
          else assign (task v) v statusMap)"

definition latest_per_task :: "verification list \<Rightarrow> (string \<times> verification) list" where
  "latest_per_task vs = foldl statusMap_step [] vs"

definition find_by_user :: "string \<Rightarrow> store \<Rightarrow> verification list" where
  "find_by_user addr s =
     sort_key (\<lambda>v. - int (submittedAt v)) (filter (\<lambda>v. userAddress v = addr) (verifications s))"

definition verification_status :: "string \<Rightarrow> store \<Rightarrow> response \<times> store" where
  "verification_status addr s =
     (let statusMap = latest_per_task (find_by_user addr s);
          result = map (\<lambda>(t, v). (t, status v)) statusMap
      in ((200, StatusMap result), s))"

text \<open>\<open>GET /api/admin/pending-verifications\<close>\<close>

definition pending_verifications :: "store \<Rightarrow> response \<times> store" where
  "pending_verifications s =
     (let pendingVerifications =
            sort_key submittedAt (filter (\<lambda>v. status v = Pending) (verifications s))
      in ((200, VerificationList pendingVerifications), s))"

text \<open>
  \<open>POST /api/admin/update-verification\<close>. The assignments change the document found;
  \<open>save\<close> validates it first, and a status outside the enum makes it throw before
  anything is written (answered by the \<open>catch\<close> with a 500). For \<open>verified\<close> the
  user is updated after the verification has been saved; when that update throws,
  the \<open>catch\<close> answers 500 and the saved verification stays.
\<close>

definition update_verification ::
  "env \<Rightarrow> string \<Rightarrow> string \<Rightarrow> string option \<Rightarrow> string option \<Rightarrow> store \<Rightarrow> response \<times> store" where
  "update_verification e vid st notes by s =
     (case findVerification vid s of
        None \<Rightarrow> ((404, Error ''Verification not found''), s)
      | Some verification \<Rightarrow>
          (case status_enum st of
             None \<Rightarrow> ((500, Error ''Validation failed''), s)
           | Some st' \<Rightarrow>
               let s1 = s\<lparr>verifications :=
                           update_first (\<lambda>v. verificationId v = vid)
                             (\<lambda>v. v\<lparr>status := st', reviewNotes := notes, reviewedBy := by,
                                    reviewedAt := Some (now e)\<rparr>)
                             (verifications s)\<rparr>
               in if st = ''verified''
                  then (case findOneAndUpdate e (userAddress verification) (task verification)
                               True False (users s1) of
                          None \<Rightarrow> ((500, Error ''Cannot create field''), s1)
                        | Some us \<Rightarrow> ((200, Success), s1\<lparr>users := us\<rparr>))
                  else ((200, Success), s1)))"

text \<open>
  \<open>POST /api/track-registration\<close>. \<open>userAddress\<close> carries a unique index, so \<open>save\<close>
  throws when the address already has a document.
\<close>

definition track_registration ::
  "env \<Rightarrow> string \<Rightarrow> string option \<Rightarrow> store \<Rightarrow> response \<times> store" where
  "track_registration e addr ref s =
     (case findUser addr s of
        Some u \<Rightarrow> ((500, Error ''E11000 duplicate key error''), s)
      | None \<Rightarrow>
          let user = (default_user e addr)\<lparr>referralCode := ref, isActive := True\<rparr>
          in ((200, Success), s\<lparr>users := users s @ [user]\<rparr>))"

text \<open>\<open>GET /api/user/:userAddress\<close>\<close>

definition user_info :: "string \<Rightarrow> store \<Rightarrow> response \<times> store" where
  "user_info addr s =
     (case findUser addr s of
        None \<Rightarrow> ((404, Error ''User not found''), s)
      | Some user \<Rightarrow> ((200, UserInfo user), s))"

section \<open>The upload widget (tasks.js)\<close>

text \<open>
  The parts of the page that the upload area reads and writes: the \<open>display\<close> style
  of the preview container and of the placeholder, the \<open>disabled\<close> flag of the submit
  button, the source of the preview image and the value of the file input.
\<close>

record widget =
  previewContainer_display :: string
  placeholder_display :: string
  submitBtn_disabled :: bool
  imagePreview_src :: string
  fileInput_value :: string

definition resetUploadArea :: "widget \<Rightarrow> widget" where
  "resetUploadArea w =
     w\<lparr>previewContainer_display := ''none'', placeholder_display := ''block'',
       submitBtn_disabled := True, fileInput_value := []\<rparr>"

text \<open>A chosen file, as far as the widget looks at it: \<open>file.type\<close> and \<open>file.size\<close>.\<close>

record js_file =
  file_type :: string
  file_size :: nat

text \<open>\<open>Swal.fire({icon, title, text})\<close>\<close>

datatype dialog = SwalFire string string string

text \<open>
  \<open>handleFiles\<close> itself changes nothing on the page: it returns at once for an empty
  list, shows an error dialog and returns when a check fails, and otherwise starts
  reading the first file. \<open>file.type.match('image.*')\<close> builds the unanchored regular
  expression \<open>image.*\<close>, which matches exactly when \<open>image\<close> occurs in the type.
\<close>

datatype handled = NoFiles | ErrorShown dialog | ReadStarted js_file

definition handleFiles :: "js_file list \<Rightarrow> handled" where
  "handleFiles files =
     (case files of
        [] \<Rightarrow> NoFiles
      | file # rest \<Rightarrow>
          if \<not> str_includes (file_type file) ''image''
          then ErrorShown (SwalFire ''error'' ''Invalid File''
                             ''Please upload an image file (JPG, PNG, GIF)'')
          else if file_size file > 5 * 1024 * 1024
          then ErrorShown (SwalFire ''error'' ''File Too Large'' ''Maximum file size is 5MB'')
          else ReadStarted file)"

text \<open>\<open>reader.onload\<close>, with the data URL the reader delivers.\<close>

definition reader_onload :: "string \<Rightarrow> widget \<Rightarrow> widget" where
  "reader_onload result w =
     w\<lparr>imagePreview_src := result, previewContainer_display := ''block'',
       placeholder_display := ''none'', submitBtn_disabled := False\<rparr>"

text \<open>
  Choosing files, up to the end of the read: the dialog shown, if any, and the page
  afterwards. A read that fails (\<open>None\<close>) fires no handler.
\<close>

definition choose_files :: "js_file list \<Rightarrow> string option \<Rightarrow> widget \<Rightarrow> dialog option \<times> widget" where
  "choose_files files read_result w =
     (case handleFiles files of
        NoFiles \<Rightarrow> (None, w)
      | ErrorShown d \<Rightarrow> (Some d, w)
      | ReadStarted file \<Rightarrow>
          (case read_result of
             None \<Rightarrow> (None, w)
           | Some result \<Rightarrow> (None, reader_onload result w)))"

section \<open>Requests and runs of the service\<close>

datatype request =
    Submit string string "upload_file option"
  | GetStatus string
  | ListPending
  | Review string string "string option" "string option"
  | TrackRegistration string "string option"
  | GetUser string

fun handle :: "env \<Rightarrow> request \<Rightarrow> store \<Rightarrow> response \<times> store" where
  "handle e (Submit tsk addr req_file) s = submit_verification e tsk addr req_file s"
| "handle e (GetStatus addr) s = verification_status addr s"
| "handle e ListPending s = pending_verifications s"
| "handle e (Review vid st notes by) s = update_verification e vid st notes by s"
| "handle e (TrackRegistration addr ref) s = track_registration e addr ref s"
| "handle e (GetUser addr) s = user_info addr s"

text \<open>A run: the requests in order, each with its environment; the state after it.\<close>

fun run :: "(env \<times> request) list \<Rightarrow> store \<Rightarrow> store" where
  "run [] s = s"
| "run ((e, r) # rs) s = run rs (snd (handle e r s))"

text \<open>The responses of a run, in order.\<close>

fun responses :: "(env \<times> request) list \<Rightarrow> store \<Rightarrow> response list" where
  "responses [] s = []"
| "responses ((e, r) # rs) s = fst (handle e r s) # responses rs (snd (handle e r s))"

section \<open>Notions the properties are stated with\<close>

text \<open>
  The route takes the new status of a review as it comes and refuses only a string
  outside the schema's enum; \<open>pending\<close> is in the enum. \<open>no_pending_review\<close> holds of
  the requests that are not a review with the new status \<open>pending\<close>.
\<close>

definition no_pending_review :: "request \<Rightarrow> bool" where
  "no_pending_review r =
     (case r of
        Review vid st rnotes rby \<Rightarrow> st \<noteq> ''pending''
      | _ \<Rightarrow> True)"

text \<open>\<open>reviewedAt\<close> is unset exactly while the status is \<open>pending\<close>.\<close>

definition reviewedAt_consistent :: "verification \<Rightarrow> bool" where
  "reviewedAt_consistent v = ((status v = Pending) = (reviewedAt v = None))"

text \<open>The verificationId a response returns, when it is that of a successful Submit.\<close>

fun returned_id :: "response \<Rightarrow> string option" where
  "returned_id (code, SubmitOk vid) = Some vid"
| "returned_id (code, other) = None"

definition returned_ids :: "response list \<Rightarrow> string list" where
  "returned_ids rsps = List.map_filter returned_id rsps"

definition stored_ids :: "store \<Rightarrow> string list" where
  "stored_ids s = map verificationId (verifications s)"

text \<open>
  \<open>tasksCompleted[k]\<close> of the user with the given address as it is read (true
  exactly when the document holds \<open>true\<close> there), \<open>None\<close> when the address has no
  user document.
\<close>

definition task_completed :: "store \<Rightarrow> string \<Rightarrow> task_name \<Rightarrow> bool option" where
  "task_completed s addr k = map_option (\<lambda>u. tasksCompleted u k = Some True) (findUser addr s)"

text \<open>
  What GetStatus reports for one task: the entry of the returned mapping, \<open>None\<close>
  when the task is not a key of it.
\<close>

definition reported_status :: "store \<Rightarrow> string \<Rightarrow> string \<Rightarrow> status option" where
  "reported_status s addr t =
     (case fst (verification_status addr s) of
        (code, StatusMap result) \<Rightarrow> map_of result t
      | _ \<Rightarrow> None)"

text \<open>
  Every verification of an enumerated task has a user document for its address.
\<close>

definition users_known :: "store \<Rightarrow> bool" where
  "users_known s =
     list_all (\<lambda>v. schema_path (task v) \<noteq> None \<longrightarrow> findUser (userAddress v) s \<noteq> None)
       (verifications s)"

text \<open>The assignments of a review with a new status of verified or rejected.\<close>

definition reviewed :: "env \<Rightarrow> string \<Rightarrow> string option \<Rightarrow> string option \<Rightarrow> verification \<Rightarrow> verification" where
  "reviewed e st rnotes rby =
     (\<lambda>v. v\<lparr>status := (if st = ''verified'' then Verified else Rejected), reviewNotes := rnotes,
            reviewedBy := rby, reviewedAt := Some (now e)\<rparr>)"

text \<open>
  The type check as the specification words it, not as the code has it: the prefix of
  the MIME type indicates an image, that is, the type begins with \<open>image/\<close>.
\<close>

definition mime_prefix_image :: "string \<Rightarrow> bool" where
  "mime_prefix_image t = starts_with ''image/'' t"

text \<open>Sample data for the concrete runs below.\<close>

definition png :: upload_file where
  "png = \<lparr>originalname = ''shot.PNG'', mimetype = ''image/png'', size_bytes = 2097152\<rparr>"

definition at_time :: "nat \<Rightarrow> env" where
  "at_time t =
     \<lparr>now = t, randomSuffix = 7, randomBase36 = ''0.k3x9'', refusesAtLimit = True,
      acceptsBeneath = False\<rparr>"

definition sample :: "nat \<Rightarrow> status \<Rightarrow> nat option \<Rightarrow> verification" where
  "sample t st rev_at =
     \<lparr>verificationId = ''VER'' @ decimal t, userAddress = ''0xABC'', task = ''twitter'',
      screenshotPath = ''uploads/x.png'', status = st, reviewedBy = None, reviewNotes = None,
      submittedAt = t, reviewedAt = rev_at\<rparr>"

definition two_reviews :: "(env \<times> request) list" where
  "two_reviews =
     [(at_time 5, Submit ''twitter'' ''0xABC'' (Some png)),
      (at_time 6, Submit ''twitter'' ''0xABC'' (Some png)),
      (at_time 7, Review ''VER5K3X9'' ''verified'' (Some ''looks good'') (Some ''admin1'')),
      (at_time 8, Review ''VER6K3X9'' ''rejected'' None (Some ''admin1''))]"

definition three_submits :: "(env \<times> request) list" where
  "three_submits =
     [(at_time 5, Submit ''twitter'' ''0xABC'' (Some png)),
      (at_time 6, Submit ''youtube'' ''0xDEF'' (Some png)),
      (at_time 6, Submit ''twitter'' ''0xABC'' (Some png))]"

definition approved :: "(env \<times> request) list" where
  "approved =
     [(at_time 5, Submit ''twitter'' ''0xABC'' (Some png)),
      (at_time 6, Review ''VER5K3X9'' ''verified'' (Some ''looks good'') (Some ''admin1''))]"

definition resubmitted :: "(env \<times> request) list" where
  "resubmitted =
     [(at_time 5, Submit ''twitter'' ''0xABC'' (Some png)),
      (at_time 6, Submit ''twitter'' ''0xABC'' (Some png))]"

definition pending_review :: "(env \<times> request) list" where
  "pending_review =
     [(at_time 5, Submit ''twitter'' ''0xABC'' (Some png)),
      (at_time 6, Review ''VER5K3X9'' ''pending'' None (Some ''admin1''))]"

definition beneath_twitter :: "(env \<times> request) list" where
  "beneath_twitter =
     [(at_time 5, Submit ''twitter'' ''0xABC'' (Some png)),
      (at_time 6, Submit ''twitter.x'' ''0xABC'' (Some png))]"

definition first_submission :: verification where
  "first_submission =
     \<lparr>verificationId = ''VER5K3X9'', userAddress = ''0xABC'', task = ''twitter'',
      screenshotPath = ''uploads/5-7.PNG'', status = Pending, reviewedBy = None,
      reviewNotes = None, submittedAt = 5, reviewedAt = None\<rparr>"

definition second_submission :: verification where
  "second_submission =
     \<lparr>verificationId = ''VER6K3X9'', userAddress = ''0xABC'', task = ''twitter'',
      screenshotPath = ''uploads/6-7.PNG'', status = Pending, reviewedBy = None,
      reviewNotes = None, submittedAt = 6, reviewedAt = None\<rparr>"

definition blank_widget :: widget where
  "blank_widget =
     \<lparr>previewContainer_display = ''none'', placeholder_display = ''block'',
      submitBtn_disabled = True, imagePreview_src = [], fileInput_value = []\<rparr>"

text \<open>The equations that evaluate the service on concrete requests.\<close>

lemmas service_defs =
  at_time_def png_def empty_store_def submit_verification_def update_verification_def
  track_registration_def verification_status_def pending_verifications_def user_info_def
  upload_single_def fileFilter_def filetypes_test_def extname_def toLowerCase_def
  toUpperCase_def substr_def fileSize_limit_def filename_def decimal.simps findUser_def
  findVerification_def default_user_def upserted_user_def set_task_completed_def
  tasksCompleted_path_def store_user_def findOneAndUpdate_def schema_path_def
  status_enum_def task_completed_def find_by_user_def latest_per_task_def statusMap_step_def
  object_prototype_keys_def reported_status_def Let_def

section \<open>Lemmas on the collections\<close>

lemma list_all_update_first:
  "list_all Q xs \<Longrightarrow> (\<And>x. Q x \<Longrightarrow> P x \<Longrightarrow> Q (f x)) \<Longrightarrow> list_all Q (update_first P f xs)"
  by (induction xs) auto

lemma map_update_first:
  "(\<And>x. g (f x) = g x) \<Longrightarrow> map g (update_first P f xs) = map g xs"
  by (induction xs) auto

lemma find_update_first:
  assumes "\<And>x. key x = b \<Longrightarrow> key (f x) = b"
  shows "find (\<lambda>x. key x = a) (update_first (\<lambda>x. key x = b) f xs) =
           (if a = b then map_option f (find (\<lambda>x. key x = a) xs) else find (\<lambda>x. key x = a) xs)"
  using assms by (induction xs) auto

lemma find_snoc:
  "find P (xs @ [y]) = (case find P xs of Some x \<Rightarrow> Some x | None \<Rightarrow> if P y then Some y else None)"
  by (induction xs) auto

lemma find_Some_set: "find P xs = Some x \<Longrightarrow> x \<in> set xs \<and> P x"
  by (induction xs) (auto split: if_splits)

text \<open>The update of one user document.\<close>

lemma tasksCompleted_path_Declared:
  "(tasksCompleted_path t = Declared k) = (schema_path t = Some k)"
  by (auto simp: tasksCompleted_path_def split: option.splits)

lemma set_task_completed_declared:
  "schema_path t = Some k \<Longrightarrow>
     set_task_completed e t b u = Some (u\<lparr>tasksCompleted := (tasksCompleted u)(k \<mapsto> b)\<rparr>)"
  by (simp add: set_task_completed_def tasksCompleted_path_def)

lemma set_task_completed_Some:
  assumes "set_task_completed e t b u = Some u'"
  shows "user_address u' = user_address u"
    and "(tasksCompleted u' k = Some True) =
           (if schema_path t = Some k then b else tasksCompleted u k = Some True)"
proof -
  show "user_address u' = user_address u"
    using assms
    by (auto simp: set_task_completed_def split: update_path.splits option.splits if_splits)
  show "(tasksCompleted u' k = Some True) =
           (if schema_path t = Some k then b else tasksCompleted u k = Some True)"
  proof (cases "tasksCompleted_path t")
    case (Declared k')
    then have "schema_path t = Some k'" by (simp add: tasksCompleted_path_Declared)
    with Declared assms show ?thesis
      by (auto simp: set_task_completed_def)
  next
    case (Beneath k')
    then have "schema_path t = None"
      by (auto simp: tasksCompleted_path_def split: option.splits)
    with Beneath assms show ?thesis
      by (auto simp: set_task_completed_def split: option.splits if_splits)
  next
    case Undeclared
    then have "schema_path t = None"
      by (auto simp: tasksCompleted_path_def split: option.splits)
    with Undeclared assms show ?thesis
      by (auto simp: set_task_completed_def)
  qed
qed

text \<open>The update of the collection, seen from one address.\<close>

lemma find_store_user:
  "find (\<lambda>u. user_address u = a) (store_user u' us) =
     (if a = user_address u' then map_option (\<lambda>u. u') (find (\<lambda>u. user_address u = a) us)
      else find (\<lambda>u. user_address u = a) us)"
  unfolding store_user_def
  by (rule find_update_first) simp

lemma findOneAndUpdate_find:
  assumes "findOneAndUpdate e addr t b up us = Some us'"
  shows "find (\<lambda>u. user_address u = a) us' =
     (if a = addr then
        (case find (\<lambda>u. user_address u = addr) us of
           Some u \<Rightarrow> set_task_completed e t b u
         | None \<Rightarrow> if up then set_task_completed e t b (upserted_user e addr) else None)
      else find (\<lambda>u. user_address u = a) us)"
proof (cases "find (\<lambda>u. user_address u = addr) us")
  case None
  with assms obtain u' where u': "set_task_completed e t b (upserted_user e addr) = Some u'"
    and us': "us' = (if up then us @ [u'] else us)"
    by (auto simp: findOneAndUpdate_def split: option.splits)
  from set_task_completed_Some(1) [OF u'] have "user_address u' = addr"
    by (simp add: upserted_user_def)
  with None u' us' show ?thesis
    by (auto simp: find_snoc split: option.splits)
next
  case (Some u)
  with assms obtain u' where u': "set_task_completed e t b u = Some u'"
    and us': "us' = store_user u' us"
    by (auto simp: findOneAndUpdate_def split: option.splits)
  from Some have "user_address u = addr" by (auto dest: find_Some_set)
  with set_task_completed_Some(1) [OF u'] have "user_address u' = addr" by simp
  with Some u' us' show ?thesis
    by (simp add: find_store_user)
qed

lemma findOneAndUpdate_declared:
  "schema_path t = Some k \<Longrightarrow> findOneAndUpdate e addr t b up us \<noteq> None"
  by (simp add: findOneAndUpdate_def set_task_completed_declared split: option.splits)

text \<open>The flag of one user and task after an accepted update.\<close>

lemma findOneAndUpdate_flag:
  assumes "findOneAndUpdate e addr t b up us = Some us'"
  shows "map_option (\<lambda>u. tasksCompleted u k = Some True) (find (\<lambda>u. user_address u = a) us') =
     (if a = addr then
        (case find (\<lambda>u. user_address u = addr) us of
           Some u \<Rightarrow> Some (if schema_path t = Some k then b else tasksCompleted u k = Some True)
         | None \<Rightarrow> if up then Some (schema_path t = Some k \<and> b) else None)
      else map_option (\<lambda>u. tasksCompleted u k = Some True) (find (\<lambda>u. user_address u = a) us))"
proof (cases "a = addr")
  case False
  with findOneAndUpdate_find [OF assms, of a] show ?thesis by simp
next
  case True
  show ?thesis
  proof (cases "find (\<lambda>u. user_address u = addr) us")
    case (Some u)
    with assms obtain u' where u': "set_task_completed e t b u = Some u'"
      by (auto simp: findOneAndUpdate_def split: option.splits)
    with findOneAndUpdate_find [OF assms, of a] True Some set_task_completed_Some(2) [OF u', of k]
    show ?thesis by simp
  next
    case None
    show ?thesis
    proof (cases up)
      case False
      with findOneAndUpdate_find [OF assms, of a] True None show ?thesis by simp
    next
      case up: True
      with assms None obtain u' where u': "set_task_completed e t b (upserted_user e addr) = Some u'"
        by (auto simp: findOneAndUpdate_def split: option.splits)
      with findOneAndUpdate_find [OF assms, of a] True None up
           set_task_completed_Some(2) [OF u', of k]
      show ?thesis by (simp add: upserted_user_def)
    qed
  qed
qed

text \<open>
  What a Submit does to the store: nothing; or it saves one new pending record and
  then either fails in the update of the user, or updates the user and returns the id.
\<close>

lemma submit_cases:
  "(snd (submit_verification e tsk addr req_file s) = s \<and>
      (\<forall>c vid. fst (submit_verification e tsk addr req_file s) \<noteq> (c, SubmitOk vid))) \<or>
   (\<exists>vid path.
      vid \<notin> set (map verificationId (verifications s)) \<and>
      verifications (snd (submit_verification e tsk addr req_file s)) =
        verifications s @
          [\<lparr>verificationId = vid, userAddress = addr, task = tsk,
            screenshotPath = path, status = Pending, reviewedBy = None,
            reviewNotes = None, submittedAt = now e, reviewedAt = None\<rparr>] \<and>
      ((findOneAndUpdate e addr tsk False True (users s) = None \<and>
        users (snd (submit_verification e tsk addr req_file s)) = users s \<and>
        (\<forall>c vid'. fst (submit_verification e tsk addr req_file s) \<noteq> (c, SubmitOk vid'))) \<or>
       (findOneAndUpdate e addr tsk False True (users s) =
          Some (users (snd (submit_verification e tsk addr req_file s))) \<and>
        fst (submit_verification e tsk addr req_file s) = (200, SubmitOk vid))))"
  by (auto simp: submit_verification_def Let_def split: sum.splits option.splits)

lemma submit_verifications:
  "verifications (snd (submit_verification e tsk addr req_file s)) = verifications s \<or>
   (\<exists>vid path.
      vid \<notin> set (map verificationId (verifications s)) \<and>
      verifications (snd (submit_verification e tsk addr req_file s)) =
        verifications s @
          [\<lparr>verificationId = vid, userAddress = addr, task = tsk,
            screenshotPath = path, status = Pending, reviewedBy = None,
            reviewNotes = None, submittedAt = now e, reviewedAt = None\<rparr>])"
  using submit_cases [of e tsk addr req_file s] by auto

lemma submit_response:
  "fst (submit_verification e tsk addr req_file s) = (c, SubmitOk vid) \<Longrightarrow>
     c = 200 \<and> vid \<notin> set (map verificationId (verifications s)) \<and>
     map verificationId (verifications (snd (submit_verification e tsk addr req_file s))) =
        map verificationId (verifications s) @ [vid] \<and>
     findOneAndUpdate e addr tsk False True (users s) =
        Some (users (snd (submit_verification e tsk addr req_file s)))"
  using submit_cases [of e tsk addr req_file s] by auto

lemma submit_no_id:
  "\<forall>c vid. fst (submit_verification e tsk addr req_file s) \<noteq> (c, SubmitOk vid) \<Longrightarrow>
     users (snd (submit_verification e tsk addr req_file s)) = users s"
  using submit_cases [of e tsk addr req_file s] by auto

text \<open>The flag of one user and task after each route.\<close>

lemma task_completed_submit_ok:
  assumes "fst (submit_verification e tsk addr req_file s) = (c, SubmitOk vid)"
  shows "task_completed (snd (submit_verification e tsk addr req_file s)) a k =
           (if a = addr then
              (if schema_path tsk = Some k then Some False
               else case task_completed s a k of None \<Rightarrow> Some False | Some b \<Rightarrow> Some b)
            else task_completed s a k)"
  using findOneAndUpdate_flag [of e addr tsk False True "users s"
          "users (snd (submit_verification e tsk addr req_file s))" k a]
        submit_response [OF assms]
  by (auto simp: task_completed_def findUser_def split: option.splits)

lemma task_completed_submit_fail:
  assumes "\<forall>c vid. fst (submit_verification e tsk addr req_file s) \<noteq> (c, SubmitOk vid)"
  shows "task_completed (snd (submit_verification e tsk addr req_file s)) a k = task_completed s a k"
  using submit_no_id [OF assms]
  by (simp add: task_completed_def findUser_def)

text \<open>
  What a Review does to the users: nothing, or the accepted update of the user of
  the record.
\<close>

lemma review_users:
  "users (snd (update_verification e vid st rnotes rby s)) = users s \<or>
   (\<exists>v. findVerification vid s = Some v \<and> st = ''verified'' \<and>
      fst (update_verification e vid st rnotes rby s) = (200, Success) \<and>
      findOneAndUpdate e (userAddress v) (task v) True False (users s) =
        Some (users (snd (update_verification e vid st rnotes rby s))))"
  by (auto simp: update_verification_def Let_def status_enum_def split: option.splits)

lemma review_users_unchanged:
  "st \<noteq> ''verified'' \<Longrightarrow> users (snd (update_verification e vid st rnotes rby s)) = users s"
  by (auto simp: update_verification_def Let_def split: option.splits)

lemma task_completed_review:
  "task_completed (snd (update_verification e vid st rnotes rby s)) a k =
     (case findVerification vid s of
        None \<Rightarrow> task_completed s a k
      | Some v \<Rightarrow>
          if st = ''verified'' \<and> userAddress v = a \<and> schema_path (task v) = Some k \<and>
             findUser a s \<noteq> None
          then Some True else task_completed s a k)"
proof -
  let ?s' = "snd (update_verification e vid st rnotes rby s)"
  from review_users [of e vid st rnotes rby s] show ?thesis
  proof
    assume same: "users ?s' = users s"
    show ?thesis
    proof (cases "findVerification vid s")
      case None
      with same show ?thesis by (simp add: task_completed_def findUser_def)
    next
      case (Some v)
      show ?thesis
      proof (cases "st = ''verified'' \<and> userAddress v = a \<and> schema_path (task v) = Some k \<and>
                    findUser a s \<noteq> None")
        case False
        with Some same show ?thesis by (simp add: task_completed_def findUser_def)
      next
        case True
        then obtain u where u: "find (\<lambda>u. user_address u = userAddress v) (users s) = Some u"
          by (auto simp: findUser_def)
        from True have p: "schema_path (task v) = Some k" by simp
        have "users ?s' = store_user (u\<lparr>tasksCompleted := (tasksCompleted u)(k \<mapsto> True)\<rparr>) (users s)"
          using Some True u
          by (simp add: update_verification_def Let_def status_enum_def findOneAndUpdate_def
                set_task_completed_declared [OF p])
        then have "find (\<lambda>u. user_address u = a) (users ?s') =
            Some (u\<lparr>tasksCompleted := (tasksCompleted u)(k \<mapsto> True)\<rparr>)"
          using u True by (auto simp: find_store_user dest: find_Some_set)
        with Some True show ?thesis by (simp add: task_completed_def findUser_def)
      qed
    qed
  next
    assume "\<exists>v. findVerification vid s = Some v \<and> st = ''verified'' \<and>
      fst (update_verification e vid st rnotes rby s) = (200, Success) \<and>
      findOneAndUpdate e (userAddress v) (task v) True False (users s) = Some (users ?s')"
    then obtain v where v: "findVerification vid s = Some v" and st: "st = ''verified''"
      and upd: "findOneAndUpdate e (userAddress v) (task v) True False (users s) = Some (users ?s')"
      by blast
    from findOneAndUpdate_flag [OF upd, of k a] v st show ?thesis
      by (auto simp: task_completed_def findUser_def split: option.splits)
  qed
qed

lemma task_completed_track:
  "task_completed (snd (track_registration e addr ref s)) a k =
     (case task_completed s a k of
        Some b \<Rightarrow> Some b
      | None \<Rightarrow> if a = addr then Some False else None)"
  by (auto simp: track_registration_def Let_def task_completed_def findUser_def find_snoc
        default_user_def split: option.splits)

section \<open>Review of an unknown id\<close>

text \<open>
  C7. A Review whose verificationId references no existing record is answered with
  404 (not found) and leaves both collections, verifications and users, as they were.
\<close>

theorem review_unknown_id_not_found:
  "findVerification vid s = None \<Longrightarrow>
     update_verification e vid st notes by s = ((404, Error ''Verification not found''), s)"
  by (simp add: update_verification_def)

text \<open>
  On a store with one verification and one user, approved before: the unknown id is
  answered with 404 and both are still there, unchanged.
\<close>

theorem review_unknown_id_not_found_witness:
  "findVerification ''VER404'' (run approved empty_store) = None \<and>
   update_verification (at_time 9) ''VER404'' ''verified'' None (Some ''admin1'')
       (run approved empty_store)
     = ((404, Error ''Verification not found''), run approved empty_store) \<and>
   map (\<lambda>v. (verificationId v, status v)) (verifications (run approved empty_store))
     = [(''VER5K3X9'', Verified)] \<and>
   map (\<lambda>u. (user_address u, tasksCompleted u Twitter)) (users (run approved empty_store))
     = [(''0xABC'', Some True)]"
proof -
  have h: "findVerification ''VER404'' (run approved empty_store) = None"
    by (simp add: approved_def service_defs)
  have st: "map (\<lambda>v. (verificationId v, status v)) (verifications (run approved empty_store))
     = [(''VER5K3X9'', Verified)] \<and>
   map (\<lambda>u. (user_address u, tasksCompleted u Twitter)) (users (run approved empty_store))
     = [(''0xABC'', Some True)]"
    by (simp add: approved_def service_defs)
  from h st review_unknown_id_not_found [OF h, of "at_time 9" "''verified''" None "Some ''admin1''"]
  show ?thesis by simp
qed

section \<open>The review queue\<close>

text \<open>
  C8. In every state, ListPending returns exactly the verifications whose status is
  pending (each of them once, and no record of another status), ordered by ascending
  submittedAt; the store is left as it was.
\<close>

theorem list_pending_exact_and_ordered:
  "\<exists>vs. pending_verifications s = ((200, VerificationList vs), s) \<and>
        mset vs = filter_mset (\<lambda>v. status v = Pending) (mset (verifications s)) \<and>
        (\<forall>v \<in> set vs. status v = Pending) \<and>
        sorted (map submittedAt vs)"
  by (simp add: pending_verifications_def)

theorem list_pending_exact_and_ordered_witness:
  "fst (pending_verifications
          \<lparr>verifications = [sample 5 Pending None, sample 3 Verified (Some 4),
                            sample 2 Pending None],
           users = []\<rparr>)
     = (200, VerificationList [sample 2 Pending None, sample 5 Pending None])"
  using list_pending_exact_and_ordered
          [of "\<lparr>verifications = [sample 5 Pending None, sample 3 Verified (Some 4),
                                 sample 2 Pending None],
                users = []\<rparr>"]
  by (simp add: pending_verifications_def sample_def)

section \<open>The invariant on reviewedAt\<close>

lemma handle_consistent:
  assumes a: "list_all reviewedAt_consistent (verifications s)" and b: "no_pending_review r"
  shows "list_all reviewedAt_consistent (verifications (snd (handle e r s)))"
proof (cases r)
  case (Submit tsk addr req_file)
  from submit_verifications [of e tsk addr req_file s] a Submit show ?thesis
    by (auto simp: reviewedAt_consistent_def)
next
  case (Review vid st rnotes rby)
  from b Review have st: "st \<noteq> ''pending''"
    by (simp add: no_pending_review_def)
  have "verifications (snd (update_verification e vid st rnotes rby s)) = verifications s \<or>
        (\<exists>st'. st' \<noteq> Pending \<and>
           verifications (snd (update_verification e vid st rnotes rby s)) =
             update_first (\<lambda>v. verificationId v = vid)
               (\<lambda>v. v\<lparr>status := st', reviewNotes := rnotes, reviewedBy := rby,
                      reviewedAt := Some (now e)\<rparr>)
               (verifications s))"
    using st
    by (auto simp: update_verification_def status_enum_def Let_def split: option.splits if_splits)
  then show ?thesis
  proof
    assume "verifications (snd (update_verification e vid st rnotes rby s)) = verifications s"
    with a Review show ?thesis by simp
  next
    assume "\<exists>st'. st' \<noteq> Pending \<and>
           verifications (snd (update_verification e vid st rnotes rby s)) =
             update_first (\<lambda>v. verificationId v = vid)
               (\<lambda>v. v\<lparr>status := st', reviewNotes := rnotes, reviewedBy := rby,
                      reviewedAt := Some (now e)\<rparr>)
               (verifications s)"
    then obtain st' where st': "st' \<noteq> Pending"
      and vs: "verifications (snd (update_verification e vid st rnotes rby s)) =
             update_first (\<lambda>v. verificationId v = vid)
               (\<lambda>v. v\<lparr>status := st', reviewNotes := rnotes, reviewedBy := rby,
                      reviewedAt := Some (now e)\<rparr>)
               (verifications s)"
      by blast
    have "list_all reviewedAt_consistent
            (update_first (\<lambda>v. verificationId v = vid)
               (\<lambda>v. v\<lparr>status := st', reviewNotes := rnotes, reviewedBy := rby,
                      reviewedAt := Some (now e)\<rparr>)
               (verifications s))"
      using a by (rule list_all_update_first) (simp add: reviewedAt_consistent_def st')
    with vs Review show ?thesis by simp
  qed
qed (use a in \<open>simp_all add: verification_status_def pending_verifications_def
       track_registration_def user_info_def Let_def split: option.splits\<close>)

lemma run_consistent:
  "list_all reviewedAt_consistent (verifications s) \<Longrightarrow>
   list_all (\<lambda>(e, r). no_pending_review r) rs \<Longrightarrow>
     list_all reviewedAt_consistent (verifications (run rs s))"
  by (induction rs arbitrary: s) (auto simp: handle_consistent)

text \<open>
  C5 as stated fails: the Review route has no guard on the new status, and a Review
  with the status \<open>pending\<close> of a submitted record is answered with success and
  leaves the record pending with reviewedAt set.
\<close>

theorem review_pending_sets_reviewedAt:
  "map fst (responses pending_review empty_store) = [200, 200] \<and>
   map (\<lambda>v. (verificationId v, status v, reviewedAt v))
     (verifications (run pending_review empty_store)) = [(''VER5K3X9'', Pending, Some 6)] \<and>
   \<not> list_all reviewedAt_consistent (verifications (run pending_review empty_store))"
  by (simp add: pending_review_def service_defs reviewedAt_consistent_def)

text \<open>
  C5, amended. In every state reached from the empty store by a sequence of
  operations in which no Review carries the new status pending (any Submit, any
  Review with another status, and the other routes), every verification has reviewedAt
  unset while its status is pending and set otherwise.
\<close>

theorem reviewedAt_null_iff_pending:
  "list_all (\<lambda>(e, r). no_pending_review r) rs \<Longrightarrow>
     list_all reviewedAt_consistent (verifications (run rs empty_store))"
  by (rule run_consistent) (simp_all add: empty_store_def)

theorem reviewedAt_null_iff_pending_witness:
  "list_all (\<lambda>(e, r). no_pending_review r) two_reviews \<and>
   list_all reviewedAt_consistent (verifications (run two_reviews empty_store)) \<and>
   map (\<lambda>v. (verificationId v, status v, reviewedAt v)) (verifications (run two_reviews empty_store))
     = [(''VER5K3X9'', Verified, Some 7), (''VER6K3X9'', Rejected, Some 8)]"
proof -
  have h: "list_all (\<lambda>(e, r). no_pending_review r) two_reviews"
    by (simp add: two_reviews_def no_pending_review_def)
  have "map (\<lambda>v. (verificationId v, status v, reviewedAt v))
          (verifications (run two_reviews empty_store))
        = [(''VER5K3X9'', Verified, Some 7), (''VER6K3X9'', Rejected, Some 8)]"
    by (simp add: two_reviews_def service_defs)
  with h reviewedAt_null_iff_pending [OF h] show ?thesis by simp
qed

section \<open>Uniqueness of the returned verificationId\<close>

lemma returned_id_Some: "returned_id rsp = Some vid \<longleftrightarrow> (\<exists>c. rsp = (c, SubmitOk vid))"
  by (cases rsp rule: returned_id.cases) auto

lemma handle_returned_id:
  "returned_id (fst (handle e r s)) = Some vid \<Longrightarrow>
     vid \<notin> set (stored_ids s) \<and> stored_ids (snd (handle e r s)) = stored_ids s @ [vid]"
proof (cases r)
  case (Submit tsk addr req_file)
  assume "returned_id (fst (handle e r s)) = Some vid"
  with Submit obtain c where "fst (submit_verification e tsk addr req_file s) = (c, SubmitOk vid)"
    by (auto simp: returned_id_Some)
  from submit_response [OF this] Submit show ?thesis
    by (simp add: stored_ids_def)
qed (auto simp: verification_status_def pending_verifications_def track_registration_def
       update_verification_def user_info_def Let_def split: option.splits)

lemma handle_stored_ids:
  "stored_ids (snd (handle e r s)) = stored_ids s \<or>
   (\<exists>vid. vid \<notin> set (stored_ids s) \<and> stored_ids (snd (handle e r s)) = stored_ids s @ [vid])"
proof (cases r)
  case (Submit tsk addr req_file)
  from submit_verifications [of e tsk addr req_file s] Submit show ?thesis
    by (auto simp: stored_ids_def)
qed (auto simp: verification_status_def pending_verifications_def track_registration_def
       update_verification_def user_info_def stored_ids_def Let_def map_update_first
       split: option.splits)

text \<open>
  From any store: the ids a run returns are pairwise distinct and none of them was in
  the store before.
\<close>

lemma returned_ids_fresh:
  "distinct (returned_ids (responses rs s)) \<and>
   set (returned_ids (responses rs s)) \<inter> set (stored_ids s) = {}"
proof (induction rs arbitrary: s)
  case Nil
  show ?case by (simp add: returned_ids_def map_filter_simps)
next
  case (Cons er rs)
  obtain e r where er: "er = (e, r)" by (cases er)
  let ?s' = "snd (handle e r s)"
  note IH = Cons.IH [of ?s']
  from handle_stored_ids [of e r s]
  have sub: "set (stored_ids s) \<subseteq> set (stored_ids ?s')" by auto
  show ?case
  proof (cases "returned_id (fst (handle e r s))")
    case None
    with IH sub er show ?thesis
      by (auto simp: returned_ids_def map_filter_simps)
  next
    case (Some vid)
    from handle_returned_id [OF Some] IH Some er show ?thesis
      by (auto simp: returned_ids_def map_filter_simps)
  qed
qed

text \<open>
  C6. Over the lifetime of the store (any sequence of requests from the empty store),
  the verificationIds returned by the successful Submit calls are pairwise distinct:
  each differs from every one returned before.
\<close>

theorem returned_verificationIds_distinct:
  "distinct (returned_ids (responses rs empty_store))"
  using returned_ids_fresh [of rs empty_store] by simp

text \<open>
  Two submissions succeed with different ids; a third one that draws the id of the
  second again is refused by the unique index and returns no id.
\<close>

theorem returned_verificationIds_distinct_witness:
  "returned_ids (responses three_submits empty_store) = [''VER5K3X9'', ''VER6K3X9''] \<and>
   map fst (responses three_submits empty_store) = [200, 200, 500] \<and>
   distinct (returned_ids (responses three_submits empty_store))"
  using returned_verificationIds_distinct [of three_submits]
  by (simp add: three_submits_def service_defs returned_ids_def map_filter_simps)

section \<open>Who writes tasksCompleted\<close>

text \<open>
  C1 as stated fails: a Submit for a user whose document exists does not leave
  tasksCompleted[task] as it was. After an approval has set the flag, the user's next
  successful Submit for the same task sets it back to false.
\<close>

theorem submit_resets_tasksCompleted:
  "task_completed (run approved empty_store) ''0xABC'' Twitter = Some True \<and>
   fst (handle (at_time 7) (Submit ''twitter'' ''0xABC'' (Some png)) (run approved empty_store))
     = (200, SubmitOk ''VER7K3X9'') \<and>
   task_completed
     (snd (handle (at_time 7) (Submit ''twitter'' ''0xABC'' (Some png)) (run approved empty_store)))
     ''0xABC'' Twitter = Some False"
  by (simp add: approved_def service_defs)

text \<open>
  C1, amended. For every user and task and every request: tasksCompleted[task] becomes
  true only through a Review with new status verified of a verification of that user and
  task; an existing value changes only through that transition (false to true) or
  through a successful Submit of that user for that task (true to false); and every
  successful Submit sets tasksCompleted[task] of its user to false, whether the user
  document existed or not.
\<close>

theorem tasksCompleted_writers:
  "(task_completed (snd (handle e r s)) a k = Some True \<and> task_completed s a k \<noteq> Some True \<longrightarrow>
      (\<exists>vid rnotes rby v. r = Review vid ''verified'' rnotes rby \<and>
         findVerification vid s = Some v \<and> userAddress v = a \<and> schema_path (task v) = Some k)) \<and>
   (task_completed s a k = Some b \<and> task_completed (snd (handle e r s)) a k \<noteq> Some b \<longrightarrow>
      (\<not> b \<and> (\<exists>vid rnotes rby v. r = Review vid ''verified'' rnotes rby \<and>
         findVerification vid s = Some v \<and> userAddress v = a \<and> schema_path (task v) = Some k)) \<or>
      (b \<and> (\<exists>tsk req_file vid. r = Submit tsk a req_file \<and> schema_path tsk = Some k \<and>
         fst (handle e r s) = (200, SubmitOk vid)))) \<and>
   (\<forall>tsk req_file c vid. r = Submit tsk a req_file \<and> schema_path tsk = Some k \<and>
       fst (handle e r s) = (c, SubmitOk vid) \<longrightarrow>
       task_completed (snd (handle e r s)) a k = Some False)"
proof (cases r)
  case (Submit tsk addr req_file)
  show ?thesis
  proof (cases "\<exists>c vid. fst (submit_verification e tsk addr req_file s) = (c, SubmitOk vid)")
    case True
    then obtain c vid where ok: "fst (submit_verification e tsk addr req_file s) = (c, SubmitOk vid)"
      by blast
    with submit_response [of e tsk addr req_file s c vid] have c: "c = 200" by simp
    from task_completed_submit_ok [OF ok, of a k] Submit ok c show ?thesis
      by (auto split: option.splits if_splits)
  next
    case False
    then have "\<forall>c vid. fst (submit_verification e tsk addr req_file s) \<noteq> (c, SubmitOk vid)"
      by blast
    from task_completed_submit_fail [OF this, of a k] Submit False show ?thesis
      by auto
  qed
next
  case (Review vid st rnotes rby)
  with task_completed_review [of e vid st rnotes rby s a k] show ?thesis
    by (cases b) (auto split: option.splits if_splits)
next
  case (TrackRegistration addr ref)
  with task_completed_track [of e addr ref s a k] show ?thesis
    by (auto split: option.splits if_splits)
qed (simp_all add: verification_status_def pending_verifications_def user_info_def Let_def
       split: option.splits)

theorem tasksCompleted_writers_witness:
  "task_completed (run (take 1 approved) empty_store) ''0xABC'' Twitter = Some False \<and>
   task_completed (snd (handle (at_time 6)
       (Review ''VER5K3X9'' ''verified'' (Some ''looks good'') (Some ''admin1''))
       (run (take 1 approved) empty_store))) ''0xABC'' Twitter = Some True \<and>
   (\<exists>v. findVerification ''VER5K3X9'' (run (take 1 approved) empty_store) = Some v \<and>
        userAddress v = ''0xABC'' \<and> schema_path (task v) = Some Twitter)"
  using tasksCompleted_writers
          [of "at_time 6" "Review ''VER5K3X9'' ''verified'' (Some ''looks good'') (Some ''admin1'')"
              "run (take 1 approved) empty_store" "''0xABC''" Twitter False]
  by (simp add: approved_def service_defs)

section \<open>Registration\<close>

text \<open>
  C9 as stated fails: for an address that already has a user document (here one
  created implicitly by a Submit) TrackRegistration does not succeed and creates
  nothing; the user stays inactive.
\<close>

theorem track_registration_existing_user:
  "fst (track_registration (at_time 9) ''0xABC'' (Some ''REF1'') (run (take 1 approved) empty_store))
     = (500, Error ''E11000 duplicate key error'') \<and>
   map isActive (users (snd (track_registration (at_time 9) ''0xABC'' (Some ''REF1'')
                               (run (take 1 approved) empty_store)))) = [False]"
  by (simp add: approved_def service_defs)

text \<open>
  C9, amended. For every userAddress that has no user document yet, and every
  referralCode, TrackRegistration adds a user document with that address and referral
  code and isActive = true, and returns success. For an address that has one (the
  address is a unique key) it answers 500 and changes nothing.
\<close>

theorem track_registration_effect:
  "(findUser addr s = None \<longrightarrow>
      (\<exists>u. track_registration e addr ref s = ((200, Success), s\<lparr>users := users s @ [u]\<rparr>) \<and>
           user_address u = addr \<and> referralCode u = ref \<and> isActive u \<and>
           findUser addr (snd (track_registration e addr ref s)) = Some u)) \<and>
   (findUser addr s \<noteq> None \<longrightarrow>
      fst (fst (track_registration e addr ref s)) = 500 \<and>
      snd (track_registration e addr ref s) = s)"
  by (auto simp: track_registration_def Let_def findUser_def find_snoc default_user_def
        split: option.splits)

theorem track_registration_effect_witness:
  "findUser ''0xDEF'' (run approved empty_store) = None \<and>
   fst (track_registration (at_time 9) ''0xDEF'' (Some ''REF1'') (run approved empty_store))
     = (200, Success) \<and>
   map_option isActive
     (findUser ''0xDEF'' (snd (track_registration (at_time 9) ''0xDEF'' (Some ''REF1'')
                                 (run approved empty_store)))) = Some True \<and>
   findUser ''0xABC'' (run approved empty_store) \<noteq> None \<and>
   fst (fst (track_registration (at_time 9) ''0xABC'' None (run approved empty_store))) = 500"
  using track_registration_effect [of "''0xDEF''" "run approved empty_store" "at_time 9" "Some ''REF1''"]
        track_registration_effect [of "''0xABC''" "run approved empty_store" "at_time 9" None]
  by (simp add: approved_def service_defs)

section \<open>GetStatus\<close>

text \<open>
  The loop over the user's verifications keeps, for every task that is not the name of
  an inherited property, a verification of that task with the greatest submittedAt;
  it keeps nothing under the name of an inherited property.
\<close>

lemma map_of_assign: "map_of (assign k v m) = (map_of m)(k \<mapsto> v)"
  by (induction m) auto

lemma latest_per_task_snoc:
  "latest_per_task (vs @ [v]) = statusMap_step (latest_per_task vs) v"
  by (simp add: latest_per_task_def)

lemma latest_prototype_key:
  "t \<in> set object_prototype_keys \<Longrightarrow> map_of (latest_per_task vs) t = None"
proof (induction vs rule: rev_induct)
  case Nil
  show ?case by (simp add: latest_per_task_def)
next
  case (snoc v vs)
  then show ?case
    by (auto simp: latest_per_task_snoc statusMap_step_def map_of_assign split: option.splits)
qed

lemma latest_None:
  "t \<notin> set object_prototype_keys \<Longrightarrow>
     (map_of (latest_per_task vs) t = None) = (\<forall>v \<in> set vs. task v \<noteq> t)"
proof (induction vs rule: rev_induct)
  case Nil
  show ?case by (simp add: latest_per_task_def)
next
  case (snoc v vs)
  then show ?case
    by (auto simp: latest_per_task_snoc statusMap_step_def map_of_assign split: option.splits)
qed

lemma latest_Some:
  "map_of (latest_per_task vs) t = Some w \<Longrightarrow>
     w \<in> set vs \<and> task w = t \<and> (\<forall>v \<in> set vs. task v = t \<longrightarrow> submittedAt v \<le> submittedAt w)"
proof (induction vs arbitrary: w t rule: rev_induct)
  case Nil
  then show ?case by (simp add: latest_per_task_def)
next
  case (snoc v vs)
  show ?case
  proof (cases "map_of (latest_per_task vs) (task v)")
    case None
    note none = this
    show ?thesis
    proof (cases "task v \<in> set object_prototype_keys")
      case True
      with none snoc.prems have same: "map_of (latest_per_task vs) t = Some w"
        by (simp add: latest_per_task_snoc statusMap_step_def)
      with none have "task v \<noteq> t" by auto
      with snoc.IH [OF same] show ?thesis by auto
    next
      case False
      with none have fresh: "\<forall>u \<in> set vs. task u \<noteq> task v"
        by (auto simp: latest_None)
      from none False snoc.prems
      have "(t = task v \<and> w = v) \<or> (t \<noteq> task v \<and> map_of (latest_per_task vs) t = Some w)"
        by (auto simp: latest_per_task_snoc statusMap_step_def map_of_assign split: if_splits)
      then show ?thesis
      proof
        assume "t = task v \<and> w = v"
        with fresh show ?thesis by auto
      next
        assume "t \<noteq> task v \<and> map_of (latest_per_task vs) t = Some w"
        with snoc.IH [of t w] show ?thesis by auto
      qed
    qed
  next
    case (Some u)
    note old = snoc.IH [OF Some]
    show ?thesis
    proof (cases "submittedAt v > submittedAt u")
      case True
      with Some snoc.prems
      have "(t = task v \<and> w = v) \<or> (t \<noteq> task v \<and> map_of (latest_per_task vs) t = Some w)"
        by (auto simp: latest_per_task_snoc statusMap_step_def map_of_assign split: if_splits)
      then show ?thesis
      proof
        assume "t = task v \<and> w = v"
        with old True show ?thesis by fastforce
      next
        assume "t \<noteq> task v \<and> map_of (latest_per_task vs) t = Some w"
        with snoc.IH [of t w] show ?thesis by auto
      qed
    next
      case False
      with Some snoc.prems have same: "map_of (latest_per_task vs) t = Some w"
        by (simp add: latest_per_task_snoc statusMap_step_def)
      have "task v = t \<Longrightarrow> submittedAt v \<le> submittedAt w"
        using Some same False by simp
      with snoc.IH [OF same] show ?thesis by simp
    qed
  qed
qed

lemma set_find_by_user:
  "set (find_by_user addr s) = {v \<in> set (verifications s). userAddress v = addr}"
  by (auto simp: find_by_user_def)

lemma reported_status_eq:
  "reported_status s addr t = map_option status (map_of (latest_per_task (find_by_user addr s)) t)"
  by (simp add: reported_status_def verification_status_def Let_def map_of_map)

text \<open>
  GetStatus answers 200 and changes nothing. For a task that is not the name of a
  property inherited from \<open>Object.prototype\<close>, the task is in the answer exactly
  when the user has a verification for it, and the reported status is that of one with
  the latest submittedAt.
\<close>

lemma get_status_reports:
  "fst (fst (verification_status addr s)) = 200 \<and> snd (verification_status addr s) = s \<and>
   (t \<notin> set object_prototype_keys \<longrightarrow>
      (reported_status s addr t = None) =
        (\<forall>v \<in> set (verifications s). userAddress v = addr \<longrightarrow> task v \<noteq> t)) \<and>
   (\<forall>st. reported_status s addr t = Some st \<longrightarrow>
      (\<exists>w \<in> set (verifications s). userAddress w = addr \<and> task w = t \<and> status w = st \<and>
         (\<forall>v \<in> set (verifications s). userAddress v = addr \<and> task v = t \<longrightarrow>
            submittedAt v \<le> submittedAt w)))"
proof -
  have a: "fst (fst (verification_status addr s)) = 200 \<and> snd (verification_status addr s) = s"
    by (simp add: verification_status_def Let_def)
  have b: "t \<notin> set object_prototype_keys \<longrightarrow>
      (reported_status s addr t = None) =
        (\<forall>v \<in> set (verifications s). userAddress v = addr \<longrightarrow> task v \<noteq> t)"
    by (auto simp: reported_status_eq latest_None set_find_by_user)
  have c: "\<forall>st. reported_status s addr t = Some st \<longrightarrow>
      (\<exists>w \<in> set (verifications s). userAddress w = addr \<and> task w = t \<and> status w = st \<and>
         (\<forall>v \<in> set (verifications s). userAddress v = addr \<and> task v = t \<longrightarrow>
            submittedAt v \<le> submittedAt w))"
  proof (intro allI impI)
    fix st
    assume "reported_status s addr t = Some st"
    then obtain w where w: "map_of (latest_per_task (find_by_user addr s)) t = Some w"
      and st: "status w = st"
      by (auto simp: reported_status_eq)
    from latest_Some [OF w] st show "\<exists>w \<in> set (verifications s). userAddress w = addr \<and>
        task w = t \<and> status w = st \<and>
        (\<forall>v \<in> set (verifications s). userAddress v = addr \<and> task v = t \<longrightarrow>
            submittedAt v \<le> submittedAt w)"
      by (auto simp: set_find_by_user)
  qed
  from a b c show ?thesis by blast
qed

text \<open>
  C4. GetStatus(userAddress) should contain exactly the tasks for which the user has
  a verification, each with the status of the most recently submitted one. The code
  misses a case: a user whose only verification has the task \<open>constructor\<close> (a name
  every plain object inherits) gets the empty mapping, although the verification is
  stored and pending.
\<close>

theorem get_status_omits_prototype_keys:
  "map (\<lambda>v. (userAddress v, task v, status v))
     (verifications (run [(at_time 5, Submit ''constructor'' ''0xABC'' (Some png))] empty_store))
     = [(''0xABC'', ''constructor'', Pending)] \<and>
   fst (verification_status ''0xABC''
          (run [(at_time 5, Submit ''constructor'' ''0xABC'' (Some png))] empty_store))
     = (200, StatusMap [])"
  by (simp add: service_defs)

section \<open>Well-formed stores\<close>

text \<open>
  In every state reached from the empty store the verificationIds are pairwise
  distinct and every verification of an enumerated task has a user document for its
  address.
\<close>

lemma findUser_task_completed: "(findUser a s = None) = (task_completed s a Twitter = None)"
  by (simp add: task_completed_def)

lemma handle_keeps_users:
  assumes "findUser a s \<noteq> None"
  shows "findUser a (snd (handle e r s)) \<noteq> None"
proof (cases r)
  case (Submit tsk addr req_file)
  show ?thesis
  proof (cases "\<exists>c vid. fst (submit_verification e tsk addr req_file s) = (c, SubmitOk vid)")
    case True
    then obtain c vid where "fst (submit_verification e tsk addr req_file s) = (c, SubmitOk vid)"
      by blast
    from task_completed_submit_ok [OF this, of a Twitter] assms Submit show ?thesis
      by (auto simp: findUser_task_completed split: if_splits option.splits)
  next
    case False
    then have "\<forall>c vid. fst (submit_verification e tsk addr req_file s) \<noteq> (c, SubmitOk vid)"
      by blast
    from task_completed_submit_fail [OF this, of a Twitter] assms Submit show ?thesis
      by (simp add: findUser_task_completed)
  qed
next
  case (Review vid st rnotes rby)
  with task_completed_review [of e vid st rnotes rby s a Twitter] assms show ?thesis
    by (auto simp: findUser_task_completed split: if_splits option.splits)
next
  case (TrackRegistration addr ref)
  with task_completed_track [of e addr ref s a Twitter] assms show ?thesis
    by (auto simp: findUser_task_completed split: if_splits option.splits)
qed (use assms in \<open>simp_all add: verification_status_def pending_verifications_def user_info_def
       Let_def split: option.splits\<close>)

lemma submit_user_known:
  assumes "schema_path tsk \<noteq> None"
    and "verifications (snd (submit_verification e tsk addr req_file s)) \<noteq> verifications s"
  shows "findUser addr (snd (submit_verification e tsk addr req_file s)) \<noteq> None"
proof -
  from assms(1) obtain k where k: "schema_path tsk = Some k" by auto
  from findOneAndUpdate_declared [OF k, of e addr False True "users s"]
       submit_cases [of e tsk addr req_file s] assms(2)
  obtain vid where "fst (submit_verification e tsk addr req_file s) = (200, SubmitOk vid)"
    by auto
  from task_completed_submit_ok [OF this, of addr Twitter] show ?thesis
    by (auto simp: findUser_task_completed split: if_splits option.splits)
qed

lemma handle_users_known:
  assumes "users_known s"
  shows "users_known (snd (handle e r s))"
proof -
  let ?known = "\<lambda>v. schema_path (task v) \<noteq> None \<longrightarrow>
                    findUser (userAddress v) (snd (handle e r s)) \<noteq> None"
  have old: "list_all ?known (verifications s)"
    using assms handle_keeps_users [of _ s e r]
    by (auto simp: users_known_def list_all_iff)
  show ?thesis
  proof (cases r)
    case (Submit tsk addr req_file)
    from submit_verifications [of e tsk addr req_file s]
    show ?thesis
    proof
      assume "verifications (snd (submit_verification e tsk addr req_file s)) = verifications s"
      with old Submit show ?thesis by (simp add: users_known_def)
    next
      assume "\<exists>vid path. vid \<notin> set (map verificationId (verifications s)) \<and>
        verifications (snd (submit_verification e tsk addr req_file s)) =
          verifications s @
            [\<lparr>verificationId = vid, userAddress = addr, task = tsk,
              screenshotPath = path, status = Pending, reviewedBy = None,
              reviewNotes = None, submittedAt = now e, reviewedAt = None\<rparr>]"
      then obtain vid path where
        vs: "verifications (snd (submit_verification e tsk addr req_file s)) =
          verifications s @
            [\<lparr>verificationId = vid, userAddress = addr, task = tsk,
              screenshotPath = path, status = Pending, reviewedBy = None,
              reviewNotes = None, submittedAt = now e, reviewedAt = None\<rparr>]"
        by blast
      then have "verifications (snd (submit_verification e tsk addr req_file s)) \<noteq> verifications s"
        by simp
      from submit_user_known [OF _ this]
      have "schema_path tsk \<noteq> None \<longrightarrow>
              findUser addr (snd (submit_verification e tsk addr req_file s)) \<noteq> None"
        by blast
      with old vs Submit show ?thesis
        by (simp add: users_known_def)
    qed
  next
    case (Review vid st rnotes rby)
    have "verifications (snd (update_verification e vid st rnotes rby s)) = verifications s \<or>
          (\<exists>f. (\<forall>v. userAddress (f v) = userAddress v \<and> task (f v) = task v) \<and>
             verifications (snd (update_verification e vid st rnotes rby s)) =
               update_first (\<lambda>v. verificationId v = vid) f (verifications s))"
      by (auto simp: update_verification_def Let_def split: option.splits
            intro!: exI [of _ "\<lambda>v. v\<lparr>status := _, reviewNotes := rnotes, reviewedBy := rby,
                                        reviewedAt := Some (now e)\<rparr>"])
    then show ?thesis
    proof
      assume "verifications (snd (update_verification e vid st rnotes rby s)) = verifications s"
      with old Review show ?thesis by (simp add: users_known_def)
    next
      assume "\<exists>f. (\<forall>v. userAddress (f v) = userAddress v \<and> task (f v) = task v) \<and>
             verifications (snd (update_verification e vid st rnotes rby s)) =
               update_first (\<lambda>v. verificationId v = vid) f (verifications s)"
      then obtain f where f: "\<forall>v. userAddress (f v) = userAddress v \<and> task (f v) = task v" and
        vs: "verifications (snd (update_verification e vid st rnotes rby s)) =
               update_first (\<lambda>v. verificationId v = vid) f (verifications s)"
        by blast
      from old Review have "list_all (\<lambda>v. schema_path (task v) \<noteq> None \<longrightarrow>
               findUser (userAddress v) (snd (update_verification e vid st rnotes rby s)) \<noteq> None)
             (verifications s)"
        by simp
      then have "list_all (\<lambda>v. schema_path (task v) \<noteq> None \<longrightarrow>
               findUser (userAddress v) (snd (update_verification e vid st rnotes rby s)) \<noteq> None)
               (update_first (\<lambda>v. verificationId v = vid) f (verifications s))"
        by (rule list_all_update_first) (simp add: f)
      with vs Review show ?thesis by (simp add: users_known_def)
    qed
  next
    case (GetStatus addr)
    with old show ?thesis by (simp add: users_known_def verification_status_def Let_def)
  next
    case ListPending
    with old show ?thesis by (simp add: users_known_def pending_verifications_def Let_def)
  next
    case (TrackRegistration addr ref)
    have "verifications (snd (track_registration e addr ref s)) = verifications s"
      by (simp add: track_registration_def Let_def split: option.splits)
    with old TrackRegistration show ?thesis by (simp add: users_known_def)
  next
    case (GetUser addr)
    with old show ?thesis by (simp add: users_known_def user_info_def split: option.splits)
  qed
qed

lemma handle_distinct_ids:
  assumes "distinct (stored_ids s)"
  shows "distinct (stored_ids (snd (handle e r s)))"
  using handle_stored_ids [of e r s] assms by auto

lemma run_well_formed:
  "distinct (stored_ids s) \<Longrightarrow> users_known s \<Longrightarrow>
     distinct (stored_ids (run rs s)) \<and> users_known (run rs s)"
  by (induction rs arbitrary: s) (auto simp: handle_distinct_ids handle_users_known)

lemma reachable_well_formed:
  "distinct (stored_ids (run rs empty_store)) \<and> users_known (run rs empty_store)"
  by (rule run_well_formed) (simp_all add: empty_store_def stored_ids_def users_known_def)

lemma set_update_first_key:
  "distinct (map key xs) \<Longrightarrow> find (\<lambda>x. key x = k) xs = Some x \<Longrightarrow>
     set (update_first (\<lambda>x. key x = k) f xs) = insert (f x) {y \<in> set xs. key y \<noteq> k}"
proof (induction xs)
  case Nil
  then show ?case by simp
next
  case (Cons y ys)
  show ?case
  proof (cases "key y = k")
    case True
    with Cons.prems have "x = y" and "\<forall>z \<in> set ys. key z \<noteq> k"
      by (force simp: image_iff)+
    with True show ?thesis by auto
  next
    case False
    with Cons show ?thesis by auto
  qed
qed

section \<open>The effect of a review\<close>

lemma review_verifications:
  assumes "findVerification vid s = Some v" and "st = ''verified'' \<or> st = ''rejected''"
  shows "verifications (snd (update_verification e vid st rnotes rby s)) =
           update_first (\<lambda>v. verificationId v = vid) (reviewed e st rnotes rby) (verifications s)"
  using assms
  by (auto simp: update_verification_def Let_def status_enum_def reviewed_def split: option.splits)

lemma review_rejected:
  assumes "findVerification vid s = Some v"
  shows "update_verification e vid ''rejected'' rnotes rby s =
           ((200, Success),
            s\<lparr>verifications := update_first (\<lambda>v. verificationId v = vid)
                                 (reviewed e ''rejected'' rnotes rby) (verifications s)\<rparr>)"
  using assms
  by (simp add: update_verification_def Let_def status_enum_def reviewed_def)

lemma review_verified_declared:
  assumes "findVerification vid s = Some v" and "schema_path (task v) = Some k"
  shows "fst (update_verification e vid ''verified'' rnotes rby s) = (200, Success)"
  using assms findOneAndUpdate_declared [OF assms(2), of e "userAddress v" True False "users s"]
  by (auto simp: update_verification_def Let_def status_enum_def split: option.splits)

lemma verificationId_reviewed [simp]:
  "verificationId (reviewed e st rnotes rby v) = verificationId v"
  by (simp add: reviewed_def)

lemma review_find:
  assumes "findVerification vid s = Some v" and "st = ''verified'' \<or> st = ''rejected''"
  shows "findVerification vid' (snd (update_verification e vid st rnotes rby s)) =
           (if vid' = vid then Some (reviewed e st rnotes rby v) else findVerification vid' s)"
  using find_update_first [of verificationId vid "reviewed e st rnotes rby" vid' "verifications s"]
        review_verifications [OF assms, of e rnotes rby] assms(1)
  by (simp add: findVerification_def)

text \<open>The verifications after a review, in a store with distinct ids.\<close>

lemma review_set:
  assumes wf: "distinct (stored_ids s)"
    and found: "findVerification vid s = Some v"
  shows "set (verifications (snd (update_verification e vid ''verified'' rnotes rby s))) =
           insert (reviewed e ''verified'' rnotes rby v)
             {y \<in> set (verifications s). verificationId y \<noteq> vid}"
  using set_update_first_key [of verificationId "verifications s" vid v
          "reviewed e ''verified'' rnotes rby"]
        wf found review_verifications [OF found, of "''verified''" e rnotes rby]
  by (simp add: stored_ids_def findVerification_def)

lemma review_reported_status:
  assumes wf: "distinct (stored_ids s)"
    and found: "findVerification vid s = Some v"
    and proto: "task v \<notin> set object_prototype_keys"
    and latest: "\<forall>w \<in> set (verifications s).
        userAddress w = userAddress v \<and> task w = task v \<and> verificationId w \<noteq> vid \<longrightarrow>
        submittedAt w < submittedAt v"
  shows "reported_status (snd (update_verification e vid ''verified'' rnotes rby s))
           (userAddress v) (task v) = Some Verified"
proof -
  let ?s' = "snd (update_verification e vid ''verified'' rnotes rby s)"
  let ?v' = "reviewed e ''verified'' rnotes rby v"
  note vs = review_set [OF wf found, of e rnotes rby]
  have v': "userAddress ?v' = userAddress v" "task ?v' = task v" "status ?v' = Verified"
    "submittedAt ?v' = submittedAt v"
    by (simp_all add: reviewed_def)
  from get_status_reports [of "userAddress v" ?s' "task v"] proto vs v'
  have "reported_status ?s' (userAddress v) (task v) \<noteq> None"
    by auto
  then obtain st where st: "reported_status ?s' (userAddress v) (task v) = Some st"
    by auto
  with get_status_reports [of "userAddress v" ?s' "task v"]
  obtain w where w: "w \<in> set (verifications ?s')" "userAddress w = userAddress v"
    "task w = task v" "status w = st"
    and mx: "\<forall>x \<in> set (verifications ?s'). userAddress x = userAddress v \<and> task x = task v \<longrightarrow>
               submittedAt x \<le> submittedAt w"
    by blast
  from mx vs v' have le: "submittedAt v \<le> submittedAt w" by auto
  have "w = ?v'"
  proof (rule ccontr)
    assume "w \<noteq> ?v'"
    with w(1) vs have "w \<in> set (verifications s)" "verificationId w \<noteq> vid" by auto
    with latest w(2,3) have "submittedAt w < submittedAt v" by blast
    with le show False by simp
  qed
  with w(4) v'(3) st show ?thesis by simp
qed

lemma review_reported_later:
  assumes wf: "distinct (stored_ids s)"
    and found: "findVerification vid s = Some v"
    and proto: "task v \<notin> set object_prototype_keys"
    and later: "\<exists>w \<in> set (verifications s).
        userAddress w = userAddress v \<and> task w = task v \<and> submittedAt v < submittedAt w"
  shows "\<exists>w \<in> set (verifications s).
           userAddress w = userAddress v \<and> task w = task v \<and> verificationId w \<noteq> vid \<and>
           submittedAt v < submittedAt w \<and>
           reported_status (snd (update_verification e vid ''verified'' rnotes rby s))
             (userAddress v) (task v) = Some (status w)"
proof -
  let ?s' = "snd (update_verification e vid ''verified'' rnotes rby s)"
  let ?v' = "reviewed e ''verified'' rnotes rby v"
  note vs = review_set [OF wf found, of e rnotes rby]
  from found have v: "v \<in> set (verifications s)" "verificationId v = vid"
    by (auto simp: findVerification_def dest: find_Some_set)
  from later obtain l where l: "l \<in> set (verifications s)" "userAddress l = userAddress v"
    "task l = task v" "submittedAt v < submittedAt l"
    by blast
  have "verificationId l \<noteq> vid"
  proof
    assume "verificationId l = vid"
    with wf v l(1) have "l = v"
      by (auto simp: stored_ids_def distinct_map inj_on_def)
    with l(4) show False by simp
  qed
  with l(1) vs have l': "l \<in> set (verifications ?s')" by simp
  from get_status_reports [of "userAddress v" ?s' "task v"] proto l' l(2,3)
  have "reported_status ?s' (userAddress v) (task v) \<noteq> None"
    by auto
  then obtain st where st: "reported_status ?s' (userAddress v) (task v) = Some st"
    by auto
  with get_status_reports [of "userAddress v" ?s' "task v"]
  obtain w where w: "w \<in> set (verifications ?s')" "userAddress w = userAddress v"
    "task w = task v" "status w = st"
    and mx: "\<forall>x \<in> set (verifications ?s'). userAddress x = userAddress v \<and> task x = task v \<longrightarrow>
               submittedAt x \<le> submittedAt w"
    by blast
  from mx l' l(2,3) have "submittedAt l \<le> submittedAt w" by blast
  with l(4) have lt: "submittedAt v < submittedAt w" by simp
  then have "w \<noteq> ?v'" by (auto simp: reviewed_def)
  with w(1) vs have "w \<in> set (verifications s)" "verificationId w \<noteq> vid" by auto
  with w(2,3,4) lt st show ?thesis by blast
qed

text \<open>
  A task name beneath a declared path, for a user whose document holds a boolean
  there: the Submit saves the verification, fails in the update of the user and
  answers 500 without an id; the Review with the new status verified of that record
  saves the review, fails in the same update and answers 500. Both whatever the
  environment answers.
\<close>

lemma submit_beneath_declared_path:
  "map fst (responses beneath_twitter empty_store) = [200, 500] \<and>
   returned_ids (responses beneath_twitter empty_store) = [''VER5K3X9''] \<and>
   map (\<lambda>v. (verificationId v, task v, status v)) (verifications (run beneath_twitter empty_store))
     = [(''VER5K3X9'', ''twitter'', Pending), (''VER6K3X9'', ''twitter.x'', Pending)]"
  by (simp add: beneath_twitter_def service_defs returned_ids_def map_filter_simps)

lemma review_beneath_declared_path:
  "fst (fst (update_verification e ''VER6K3X9'' ''verified'' rnotes rby
               (run beneath_twitter empty_store))) = 500 \<and>
   map (\<lambda>v. (verificationId v, status v))
     (verifications (snd (update_verification e ''VER6K3X9'' ''verified'' rnotes rby
                            (run beneath_twitter empty_store))))
     = [(''VER5K3X9'', Pending), (''VER6K3X9'', Verified)] \<and>
   users (snd (update_verification e ''VER6K3X9'' ''verified'' rnotes rby
                 (run beneath_twitter empty_store)))
     = users (run beneath_twitter empty_store)"
  by (simp add: beneath_twitter_def service_defs)

text \<open>
  C2 as stated fails in its consequence for GetStatus: after a user has submitted the
  same task twice, approving the older submission succeeds, but GetStatus goes on
  reporting the status of the newer one, pending.
\<close>

theorem review_of_older_submission:
  "fst (update_verification (at_time 7) ''VER5K3X9'' ''verified'' (Some ''looks good'')
          (Some ''admin1'') (run resubmitted empty_store)) = (200, Success) \<and>
   reported_status
     (snd (update_verification (at_time 7) ''VER5K3X9'' ''verified'' (Some ''looks good'')
          (Some ''admin1'') (run resubmitted empty_store))) ''0xABC'' ''twitter'' = Some Pending"
  by (simp add: resubmitted_def service_defs)

text \<open>
  C2, amended. In every state reached from the empty store, a Review(verificationId,
  newStatus, reviewedBy, reviewNotes) of an existing record with newStatus verified or
  rejected sets that record's status, reviewedBy, reviewNotes and reviewedAt = now
  and leaves every other record as it was. If newStatus is rejected, it succeeds and
  no user document changes. If newStatus is verified and the record's task is one of
  the enumerated tasks, it succeeds and sets tasksCompleted[task] = true for the
  record's userAddress and task. After a review with newStatus verified of a record
  whose task is not the name of an inherited object property (such a task GetStatus
  never reports), a subsequent GetStatus returns verified for that user and task if
  every other verification of that user and task was submitted strictly earlier than
  the reviewed record; if one was submitted strictly later, GetStatus returns the
  status of such a later verification instead.
\<close>

theorem review_effect:
  assumes reach: "s = run rs empty_store"
    and found: "findVerification vid s = Some v"
    and st: "st = ''verified'' \<or> st = ''rejected''"
    and s': "s' = snd (update_verification e vid st rnotes rby s)"
  shows "findVerification vid s' =
       Some (v\<lparr>status := (if st = ''verified'' then Verified else Rejected), reviewNotes := rnotes,
               reviewedBy := rby, reviewedAt := Some (now e)\<rparr>) \<and>
     (\<forall>vid'. vid' \<noteq> vid \<longrightarrow> findVerification vid' s' = findVerification vid' s) \<and>
     (st = ''rejected'' \<longrightarrow>
        fst (update_verification e vid st rnotes rby s) = (200, Success) \<and> users s' = users s) \<and>
     (st = ''verified'' \<longrightarrow>
        (\<forall>k. schema_path (task v) = Some k \<longrightarrow>
           fst (update_verification e vid st rnotes rby s) = (200, Success) \<and>
           task_completed s' (userAddress v) k = Some True)) \<and>
     (st = ''verified'' \<and> task v \<notin> set object_prototype_keys \<and>
      (\<forall>w \<in> set (verifications s).
          userAddress w = userAddress v \<and> task w = task v \<and> verificationId w \<noteq> vid \<longrightarrow>
          submittedAt w < submittedAt v) \<longrightarrow>
        reported_status s' (userAddress v) (task v) = Some Verified) \<and>
     (st = ''verified'' \<and> task v \<notin> set object_prototype_keys \<and>
      (\<exists>w \<in> set (verifications s).
          userAddress w = userAddress v \<and> task w = task v \<and> submittedAt v < submittedAt w) \<longrightarrow>
        (\<exists>w \<in> set (verifications s).
           userAddress w = userAddress v \<and> task w = task v \<and> verificationId w \<noteq> vid \<and>
           submittedAt v < submittedAt w \<and>
           reported_status s' (userAddress v) (task v) = Some (status w)))"
proof -
  from reach reachable_well_formed [of rs]
  have wf: "distinct (stored_ids s)" and known: "users_known s" by simp_all
  from found have "v \<in> set (verifications s)"
    by (auto simp: findVerification_def dest: find_Some_set)
  with known have user: "schema_path (task v) \<noteq> None \<longrightarrow> findUser (userAddress v) s \<noteq> None"
    by (simp add: users_known_def list_all_iff)
  have a: "findVerification vid s' =
       Some (v\<lparr>status := (if st = ''verified'' then Verified else Rejected), reviewNotes := rnotes,
               reviewedBy := rby, reviewedAt := Some (now e)\<rparr>)"
    using review_find [OF found st, of vid e rnotes rby] s' by (simp add: reviewed_def)
  have b: "\<forall>vid'. vid' \<noteq> vid \<longrightarrow> findVerification vid' s' = findVerification vid' s"
    using review_find [OF found st, of _ e rnotes rby] s' by simp
  have c: "st = ''rejected'' \<longrightarrow>
        fst (update_verification e vid st rnotes rby s) = (200, Success) \<and> users s' = users s"
    using review_rejected [OF found, of e rnotes rby] s' by simp
  have d: "st = ''verified'' \<longrightarrow>
        (\<forall>k. schema_path (task v) = Some k \<longrightarrow>
           fst (update_verification e vid st rnotes rby s) = (200, Success) \<and>
           task_completed s' (userAddress v) k = Some True)"
  proof (intro impI allI)
    fix k
    assume v: "st = ''verified''" and k: "schema_path (task v) = Some k"
    from review_verified_declared [OF found k, of e rnotes rby] v
    have "fst (update_verification e vid st rnotes rby s) = (200, Success)" by simp
    moreover
    from task_completed_review [of e vid st rnotes rby s "userAddress v" k] found user s' v k
    have "task_completed s' (userAddress v) k = Some True" by simp
    ultimately show "fst (update_verification e vid st rnotes rby s) = (200, Success) \<and>
           task_completed s' (userAddress v) k = Some True" by simp
  qed
  have f: "st = ''verified'' \<and> task v \<notin> set object_prototype_keys \<and>
      (\<forall>w \<in> set (verifications s).
          userAddress w = userAddress v \<and> task w = task v \<and> verificationId w \<noteq> vid \<longrightarrow>
          submittedAt w < submittedAt v) \<longrightarrow>
        reported_status s' (userAddress v) (task v) = Some Verified"
    using review_reported_status [OF wf found, of e rnotes rby] s' by blast
  have g: "st = ''verified'' \<and> task v \<notin> set object_prototype_keys \<and>
      (\<exists>w \<in> set (verifications s).
          userAddress w = userAddress v \<and> task w = task v \<and> submittedAt v < submittedAt w) \<longrightarrow>
        (\<exists>w \<in> set (verifications s).
           userAddress w = userAddress v \<and> task w = task v \<and> verificationId w \<noteq> vid \<and>
           submittedAt v < submittedAt w \<and>
           reported_status s' (userAddress v) (task v) = Some (status w))"
    using review_reported_later [OF wf found, of e rnotes rby] s' by blast
  from a b c d f g show ?thesis by blast
qed

text \<open>
  On a store with two submissions of the same user and task: approving the later one
  makes GetStatus report verified and sets the flag; approving the earlier one leaves
  GetStatus at the status of the later one; rejecting changes the record alone.
\<close>

theorem review_effect_witness:
  "verifications (run resubmitted empty_store) = [first_submission, second_submission] \<and>
   findVerification ''VER6K3X9'' (run resubmitted empty_store) = Some second_submission \<and>
   fst (update_verification (at_time 7) ''VER6K3X9'' ''verified'' (Some ''looks good'')
          (Some ''admin1'') (run resubmitted empty_store)) = (200, Success) \<and>
   findVerification ''VER6K3X9''
     (snd (update_verification (at_time 7) ''VER6K3X9'' ''verified'' (Some ''looks good'')
             (Some ''admin1'') (run resubmitted empty_store)))
     = Some (second_submission\<lparr>status := Verified, reviewNotes := Some ''looks good'',
                               reviewedBy := Some ''admin1'', reviewedAt := Some 7\<rparr>) \<and>
   task_completed
     (snd (update_verification (at_time 7) ''VER6K3X9'' ''verified'' (Some ''looks good'')
             (Some ''admin1'') (run resubmitted empty_store))) ''0xABC'' Twitter
     = Some True \<and>
   reported_status
     (snd (update_verification (at_time 7) ''VER6K3X9'' ''verified'' (Some ''looks good'')
             (Some ''admin1'') (run resubmitted empty_store))) ''0xABC'' ''twitter''
     = Some Verified \<and>
   findVerification ''VER5K3X9'' (run resubmitted empty_store) = Some first_submission \<and>
   reported_status
     (snd (update_verification (at_time 7) ''VER5K3X9'' ''verified'' (Some ''looks good'')
             (Some ''admin1'') (run resubmitted empty_store))) ''0xABC'' ''twitter''
     = Some Pending \<and>
   update_verification (at_time 7) ''VER5K3X9'' ''rejected'' None (Some ''admin1'')
       (run resubmitted empty_store)
     = ((200, Success),
        (run resubmitted empty_store)
          \<lparr>verifications :=
             [first_submission\<lparr>status := Rejected, reviewNotes := None,
                               reviewedBy := Some ''admin1'', reviewedAt := Some 7\<rparr>,
              second_submission]\<rparr>)"
proof -
  have vs: "verifications (run resubmitted empty_store) = [first_submission, second_submission]"
    by (simp add: resubmitted_def first_submission_def second_submission_def service_defs)
  have h2: "findVerification ''VER6K3X9'' (run resubmitted empty_store) = Some second_submission"
    by (simp add: findVerification_def vs first_submission_def second_submission_def)
  have h1: "findVerification ''VER5K3X9'' (run resubmitted empty_store) = Some first_submission"
    by (simp add: findVerification_def vs first_submission_def)
  have st: "''verified'' = ''verified'' \<or> ''verified'' = ''rejected''"
    by simp
  have st': "''rejected'' = ''verified'' \<or> ''rejected'' = ''rejected''"
    by simp
  have rej: "update_verification (at_time 7) ''VER5K3X9'' ''rejected'' None (Some ''admin1'')
       (run resubmitted empty_store)
     = ((200, Success),
        (run resubmitted empty_store)
          \<lparr>verifications :=
             [first_submission\<lparr>status := Rejected, reviewNotes := None,
                               reviewedBy := Some ''admin1'', reviewedAt := Some 7\<rparr>,
              second_submission]\<rparr>)"
    using h1 by (simp add: update_verification_def status_enum_def Let_def vs at_time_def
                   first_submission_def second_submission_def)
  from review_effect [OF refl h2 st refl, of "at_time 7" "Some ''looks good''" "Some ''admin1''"]
       review_effect [OF refl h1 st refl, of "at_time 7" "Some ''looks good''" "Some ''admin1''"]
       review_effect [OF refl h1 st' refl, of "at_time 7" None "Some ''admin1''"]
       vs h1 h2 rej
  show ?thesis
    by (simp add: first_submission_def second_submission_def schema_path_def
          object_prototype_keys_def at_time_def)
qed

section \<open>Rejected uploads\<close>

text \<open>
  A file that fails the filter or exceeds the size limit never reaches the handler:
  nothing is stored, and the answer is the framework's 500.
\<close>

lemma rejected_upload_creates_no_record:
  "\<not> fileFilter file \<or> size_bytes file > fileSize_limit \<Longrightarrow>
     \<exists>msg. submit_verification e tsk addr (Some file) s = ((500, Unhandled msg), s)"
  by (auto simp: submit_verification_def upload_single_def)

text \<open>
  The filter looks for \<open>jpeg\<close>, \<open>jpg\<close>, \<open>png\<close> or \<open>gif\<close> anywhere in the declared
  type: a type outside \<open>image/\<close> that contains one of them passes, and the record is
  created.
\<close>

lemma filter_accepts_type_outside_image:
  "\<not> mime_prefix_image ''text/png'' \<and>
   fst (submit_verification (at_time 5) ''twitter'' ''0xABC''
          (Some \<lparr>originalname = ''shot.png'', mimetype = ''text/png'', size_bytes = 1000\<rparr>)
          empty_store)
     = (200, SubmitOk ''VER5K3X9'')"
  by (simp add: mime_prefix_image_def service_defs)

text \<open>
  C3. Every Submit whose file has a non-image content-type or whose size exceeds
  5 MiB should fail with HTTP 400 and create no verification. The code creates no
  record, but it does not answer 400: for a PDF, and for a PNG of 5 MiB and one byte,
  in any state, the answer is 500.
\<close>

theorem rejected_upload_answers_500:
  "submit_verification e tsk addr
     (Some \<lparr>originalname = ''proof.pdf'', mimetype = ''application/pdf'', size_bytes = 1000\<rparr>) s
     = ((500, Unhandled ''Only image files are allowed''), s) \<and>
   submit_verification e tsk addr
     (Some \<lparr>originalname = ''shot.png'', mimetype = ''image/png'', size_bytes = 5242881\<rparr>) s
     = ((500, Unhandled ''File too large''), s)"
  by (simp add: submit_verification_def upload_single_def fileFilter_def filetypes_test_def
        extname_def toLowerCase_def fileSize_limit_def)

section \<open>The upload widget\<close>

text \<open>
  From a reset upload area, with a read that completes: the submit button is enabled
  and the preview shown exactly when the type of the first file contains \<open>image\<close>
  and its size is at most 5 MiB; otherwise a dialog is shown and the button stays
  disabled.
\<close>

lemma widget_accepts_iff:
  "(submitBtn_disabled (snd (choose_files (file # rest) (Some url) (resetUploadArea w))) = False) =
     (str_includes (file_type file) ''image'' \<and> file_size file \<le> 5 * 1024 * 1024) \<and>
   (previewContainer_display (snd (choose_files (file # rest) (Some url) (resetUploadArea w))) = ''block'') =
     (str_includes (file_type file) ''image'' \<and> file_size file \<le> 5 * 1024 * 1024) \<and>
   (fst (choose_files (file # rest) (Some url) (resetUploadArea w)) = None) =
     (str_includes (file_type file) ''image'' \<and> file_size file \<le> 5 * 1024 * 1024)"
  by (auto simp: choose_files_def handleFiles_def reader_onload_def resetUploadArea_def)

text \<open>
  A failed check leaves the page as it is: after a valid file has enabled the button,
  choosing an invalid one shows the dialog and the button stays enabled.
\<close>

lemma widget_error_keeps_state:
  "choose_files [\<lparr>file_type = ''application/pdf'', file_size = 1024\<rparr>] (Some url)
     (snd (choose_files [\<lparr>file_type = ''image/png'', file_size = 1024\<rparr>] (Some url) blank_widget))
   = (Some (SwalFire ''error'' ''Invalid File'' ''Please upload an image file (JPG, PNG, GIF)''),
      reader_onload url blank_widget) \<and>
   submitBtn_disabled (reader_onload url blank_widget) = False"
  by (simp add: choose_files_def handleFiles_def reader_onload_def blank_widget_def)

text \<open>
  C10. The widget should enable the submit action and render the preview exactly when
  the chosen file's MIME-type prefix indicates an image and its size is at most 5 MiB.
  The code tests for \<open>image\<close> anywhere in the type: a disk image of 1 KiB, whose type
  \<open>application/x-cd-image\<close> does not begin with \<open>image/\<close>, is accepted from a reset
  upload area without any dialog, its preview is shown and the submit button enabled.
\<close>

theorem widget_accepts_non_image_type:
  "\<not> mime_prefix_image ''application/x-cd-image'' \<and>
   choose_files [\<lparr>file_type = ''application/x-cd-image'', file_size = 1024\<rparr>] (Some url)
       (resetUploadArea blank_widget)
     = (None,
        \<lparr>previewContainer_display = ''block'', placeholder_display = ''none'',
         submitBtn_disabled = False, imagePreview_src = url, fileInput_value = []\<rparr>)"
  by (simp add: mime_prefix_image_def choose_files_def handleFiles_def reader_onload_def
        resetUploadArea_def blank_widget_def)

end
